theory Spec2Isabelle
  imports Main "HOL-Library.Word"
begin

section \<open>SecureWatch SIEM: the AI security-analyst conversation engine\<close>

text \<open>
  A shallow embedding of the two AI routes of the Express server
  (\<^verbatim>\<open>POST /api/ai/analyze\<close> and \<^verbatim>\<open>POST /api/ai/quick-analyze\<close>), of the
  response sanitizer \<^verbatim>\<open>sanitizeAiResponse\<close> they share, and of the storage
  methods they call.  Asynchronous functions are modelled by their settled
  result: a rejected promise is the value \<open>Throws\<close>, a fulfilled one is
  \<open>Returns\<close>.
\<close>

subsection \<open>JavaScript strings\<close>

text \<open>
  A JavaScript string is a sequence of 16-bit UTF-16 code units; \<open>length\<close>,
  \<open>slice\<close>, \<open>substring\<close>, \<open>split\<close> and the regular expressions of the source
  (none has the \<open>u\<close> flag) all work on code units.
\<close>

type_synonym jschar = "16 word"
type_synonym jsstring = "jschar list"

definition js :: "string \<Rightarrow> jsstring" where
  "js s = map of_char s"

text \<open>
  \<open>s.slice(0, n)\<close> for an integer \<open>n\<close>: a negative end counts from the end of
  the string, and the result is clamped to the string.
\<close>

definition slice0 :: "'a list \<Rightarrow> int \<Rightarrow> 'a list" where
  "slice0 s n = (if n < 0 then take (nat (int (length s) + n)) s else take (nat n) s)"

text \<open>\<open>xs.slice(-n)\<close> for \<open>n > 0\<close>: the last \<open>n\<close> elements (all of them when there are fewer).\<close>

definition slice_last :: "nat \<Rightarrow> 'a list \<Rightarrow> 'a list" where
  "slice_last n xs = drop (length xs - n) xs"

text \<open>\<open>s.split(" ")\<close>: cut at every single space; adjacent spaces give empty pieces.\<close>

fun split_sp :: "jsstring \<Rightarrow> jsstring list" where
  "split_sp [] = [[]]"
| "split_sp (c # cs) =
     (if c = 0x20 then [] # split_sp cs
      else (case split_sp cs of [] \<Rightarrow> [[c]] | w # ws \<Rightarrow> (c # w) # ws))"

text \<open>\<open>ws.join(" ")\<close>.\<close>

fun join_sp :: "jsstring list \<Rightarrow> jsstring" where
  "join_sp [] = []"
| "join_sp [w] = w"
| "join_sp (w # v # ws) = w @ 0x20 # join_sp (v # ws)"

subsection \<open>Regular expressions\<close>

text \<open>
  The six expressions of \<^verbatim>\<open>sanitizeAiResponse\<close> are built from matchers in
  continuation-passing style, as in the ECMAScript specification: a matcher
  takes the continuation that matches the rest of the pattern and the current
  state, and returns the final state of the first successful way to match, in
  the priority order of a backtracking matcher.  The state is the code unit
  just before the current position (if any; \<open>\b\<close> looks at it) and the rest
  of the input from the current position.
\<close>

type_synonym rstate = "jschar option \<times> jsstring"
type_synonym rcont = "rstate \<Rightarrow> rstate option"
type_synonym matcher = "rcont \<Rightarrow> rstate \<Rightarrow> rstate option"

text \<open>\<open>\w\<close> is \<open>[A-Za-z0-9_]\<close>.\<close>

definition is_word :: "jschar \<Rightarrow> bool" where
  "is_word c = ((0x41 \<le> c \<and> c \<le> 0x5A) \<or> (0x61 \<le> c \<and> c \<le> 0x7A) \<or>
                (0x30 \<le> c \<and> c \<le> 0x39) \<or> c = 0x5F)"

text \<open>\<open>\s\<close> is the white space and line terminator code units of ECMAScript.\<close>

definition is_space :: "jschar \<Rightarrow> bool" where
  "is_space c = ((0x09 \<le> c \<and> c \<le> 0x0D) \<or> c = 0x20 \<or> c = 0xA0 \<or> c = 0x1680 \<or>
                 (0x2000 \<le> c \<and> c \<le> 0x200A) \<or> c = 0x2028 \<or> c = 0x2029 \<or>
                 c = 0x202F \<or> c = 0x205F \<or> c = 0x3000 \<or> c = 0xFEFF)"

text \<open>
  Case folding of the \<open>i\<close> flag.  Without the \<open>u\<close> flag, Canonicalize maps a
  code unit to its upper case, except that a code unit from 128 on is never
  mapped below 128.  Every pattern character of the source is ASCII, so a
  code unit from 128 on never matches one, and on ASCII the upper case is
  that of the letters \<open>a\<close> to \<open>z\<close>: \<open>canon\<close> folds those and leaves the
  rest alone.
\<close>

definition canon :: "jschar \<Rightarrow> jschar" where
  "canon c = (if 0x61 \<le> c \<and> c \<le> 0x7A then c - 0x20 else c)"

text \<open>One code unit of a character class.\<close>

definition chr_set :: "(jschar \<Rightarrow> bool) \<Rightarrow> matcher" where
  "chr_set P k st =
     (case snd st of [] \<Rightarrow> None | c # cs \<Rightarrow> if P c then k (Some c, cs) else None)"

text \<open>A literal under the \<open>i\<close> flag.\<close>

primrec lit_ci :: "jsstring \<Rightarrow> matcher" where
  "lit_ci [] k = k"
| "lit_ci (a # w) k = chr_set (\<lambda>c. canon c = canon a) (lit_ci w k)"

text \<open>
  Greedy \<open>m*\<close>: try one more \<open>m\<close> and then the star again, else go on with the
  continuation.  An iteration that consumes nothing is rejected, as
  RepeatMatcher does.
\<close>

function star :: "matcher \<Rightarrow> matcher" where
  "star m k st =
     (case m (\<lambda>st'. if length (snd st') < length (snd st) then star m k st' else None) st of
        Some r \<Rightarrow> Some r
      | None \<Rightarrow> k st)"
  by pat_completeness auto
termination
  by (relation "measure (\<lambda>(m, k, st). length (snd st))") auto

declare star.simps [simp del]

text \<open>Greedy \<open>m+\<close>.\<close>

definition plus_m :: "matcher \<Rightarrow> matcher" where
  "plus_m m k = m (star m k)"

text \<open>\<open>\b\<close>: exactly one of the code units around the position is a word character.\<close>

definition word_boundary :: matcher where
  "word_boundary k st =
     (let a = (case fst st of None \<Rightarrow> False | Some c \<Rightarrow> is_word c);
          b = (case snd st of [] \<Rightarrow> False | c # cs \<Rightarrow> is_word c)
      in if a \<noteq> b then k st else None)"

text \<open>\<open>(?!m)\<close>.\<close>

definition neg_lookahead :: "matcher \<Rightarrow> matcher" where
  "neg_lookahead m k st = (case m Some st of Some r \<Rightarrow> None | None \<Rightarrow> k st)"

text \<open>\<open>m1|m2\<close>.\<close>

definition alt :: "matcher \<Rightarrow> matcher \<Rightarrow> matcher" where
  "alt m1 m2 k st = (case m1 k st of Some r \<Rightarrow> Some r | None \<Rightarrow> m2 k st)"

text \<open>
  A capturing group around one code unit of a class; the rest of the pattern
  receives the captured code unit, for the back reference.
\<close>

definition capture_chr :: "(jschar \<Rightarrow> bool) \<Rightarrow> (jschar \<Rightarrow> matcher) \<Rightarrow> matcher" where
  "capture_chr P f k st =
     (case snd st of [] \<Rightarrow> None | c # cs \<Rightarrow> if P c then f c k (Some c, cs) else None)"

text \<open>A back reference to a captured code unit, under the \<open>i\<close> flag.\<close>

definition backref :: "jschar \<Rightarrow> matcher" where
  "backref q = chr_set (\<lambda>c. canon c = canon q)"

text \<open>\<^verbatim>\<open>/<script\b[^<]*(?:(?!<\/script>)<[^<]*)*<\/script>/gi\<close>\<close>

definition re_script :: matcher where
  "re_script =
     lit_ci (js ''<script'') \<circ> word_boundary \<circ> star (chr_set (\<lambda>c. c \<noteq> 0x3C)) \<circ>
     star (neg_lookahead (lit_ci (js ''</script>'')) \<circ> chr_set (\<lambda>c. c = 0x3C) \<circ>
           star (chr_set (\<lambda>c. c \<noteq> 0x3C))) \<circ>
     lit_ci (js ''</script>'')"

text \<open>\<^verbatim>\<open>/<iframe\b[^<]*(?:(?!<\/iframe>)<[^<]*)*<\/iframe>/gi\<close>\<close>

definition re_iframe :: matcher where
  "re_iframe =
     lit_ci (js ''<iframe'') \<circ> word_boundary \<circ> star (chr_set (\<lambda>c. c \<noteq> 0x3C)) \<circ>
     star (neg_lookahead (lit_ci (js ''</iframe>'')) \<circ> chr_set (\<lambda>c. c = 0x3C) \<circ>
           star (chr_set (\<lambda>c. c \<noteq> 0x3C))) \<circ>
     lit_ci (js ''</iframe>'')"

text \<open>\<^verbatim>\<open>/javascript\s*:/gi\<close>\<close>

definition re_javascript :: matcher where
  "re_javascript = lit_ci (js ''javascript'') \<circ> star (chr_set is_space) \<circ> lit_ci (js '':'')"

text \<open>\<^verbatim>\<open>/data\s*:\s*(text\/html|application\/javascript)/gi\<close>\<close>

definition re_data :: matcher where
  "re_data =
     lit_ci (js ''data'') \<circ> star (chr_set is_space) \<circ> lit_ci (js '':'') \<circ>
     star (chr_set is_space) \<circ>
     alt (lit_ci (js ''text/html'')) (lit_ci (js ''application/javascript''))"

text \<open>\<^verbatim>\<open>/\bon\w+\s*=\s*(['"])[^'"]*\1/gi\<close>\<close>

definition re_handler_quoted :: matcher where
  "re_handler_quoted =
     word_boundary \<circ> lit_ci (js ''on'') \<circ> plus_m (chr_set is_word) \<circ>
     star (chr_set is_space) \<circ> lit_ci (js ''='') \<circ> star (chr_set is_space) \<circ>
     capture_chr (\<lambda>c. c = 0x27 \<or> c = 0x22)
       (\<lambda>q. star (chr_set (\<lambda>c. c \<noteq> 0x27 \<and> c \<noteq> 0x22)) \<circ> backref q)"

text \<open>\<^verbatim>\<open>/\bon\w+\s*=\s*[^\s>]*/gi\<close>\<close>

definition re_handler_unquoted :: matcher where
  "re_handler_unquoted =
     word_boundary \<circ> lit_ci (js ''on'') \<circ> plus_m (chr_set is_word) \<circ>
     star (chr_set is_space) \<circ> lit_ci (js ''='') \<circ> star (chr_set is_space) \<circ>
     star (chr_set (\<lambda>c. \<not> is_space c \<and> c \<noteq> 0x3E))"

text \<open>
  \<open>s.replace(re, rep)\<close> for a global expression and a replacement without
  \<open>$\<close>: scan from the left; where the expression matches, emit the
  replacement and go on after the match (one code unit further when the
  match is empty); elsewhere copy one code unit.  Matching always runs on the
  original string, so the code unit before the position is the original one.
\<close>

function replace_from :: "matcher \<Rightarrow> jsstring \<Rightarrow> rstate \<Rightarrow> jsstring" where
  "replace_from m rep st =
     (case m Some st of
        Some st' \<Rightarrow>
          if length (snd st') < length (snd st) then rep @ replace_from m rep st'
          else (case snd st of [] \<Rightarrow> rep | c # cs \<Rightarrow> rep @ c # replace_from m rep (Some c, cs))
      | None \<Rightarrow>
          (case snd st of [] \<Rightarrow> [] | c # cs \<Rightarrow> c # replace_from m rep (Some c, cs)))"
  by pat_completeness auto
termination
  by (relation "measure (\<lambda>(m, rep, st). length (snd st))") auto

declare replace_from.simps [simp del]

definition replace_all :: "matcher \<Rightarrow> jsstring \<Rightarrow> jsstring \<Rightarrow> jsstring" where
  "replace_all m rep s = replace_from m rep (None, s)"

text \<open>\<open>re.test(s)\<close> from a position on: does the expression match anywhere?\<close>

fun matches_from :: "matcher \<Rightarrow> jschar option \<Rightarrow> jsstring \<Rightarrow> bool" where
  "matches_from m p [] = (case m Some (p, []) of Some r \<Rightarrow> True | None \<Rightarrow> False)"
| "matches_from m p (c # cs) =
     (case m Some (p, c # cs) of Some r \<Rightarrow> True | None \<Rightarrow> matches_from m (Some c) cs)"

definition regex_test :: "matcher \<Rightarrow> jsstring \<Rightarrow> bool" where
  "regex_test m s = matches_from m None s"

subsection \<open>The response sanitizer\<close>

definition fallback_text :: jsstring where
  "fallback_text =
     js ''I apologize, but I was unable to generate a response. Please try again.''"

text \<open>
  \<^verbatim>\<open>sanitizeAiResponse(response, maxLength = 8000)\<close>.  The response is
  \<open>None\<close> for \<^verbatim>\<open>null\<close> and \<^verbatim>\<open>undefined\<close>; the empty string is falsy too.
  \<open>maxLength\<close> is an integer.
\<close>

definition sanitizeAiResponse :: "jsstring option \<Rightarrow> int \<Rightarrow> jsstring" where
  "sanitizeAiResponse response maxLength =
     (case response of
        None \<Rightarrow> fallback_text
      | Some r \<Rightarrow>
          if r = [] then fallback_text
          else
            (let sanitized = slice0 r maxLength;
                 sanitized = replace_all re_script (js ''[removed script]'') sanitized;
                 sanitized = replace_all re_iframe (js ''[removed iframe]'') sanitized;
                 sanitized = replace_all re_javascript (js ''javascript-blocked:'') sanitized;
                 sanitized = replace_all re_data (js ''data-blocked:'') sanitized;
                 sanitized = replace_all re_handler_quoted [] sanitized;
                 sanitized = replace_all re_handler_unquoted [] sanitized
             in sanitized))"

text \<open>The call with the default \<open>maxLength\<close>, as both routes make it.\<close>

definition sanitize :: "jsstring option \<Rightarrow> jsstring" where
  "sanitize response = sanitizeAiResponse response 8000"

text \<open>A string is free of the five blocked patterns when none of the six expressions matches in it.\<close>

definition pattern_free :: "jsstring \<Rightarrow> bool" where
  "pattern_free s =
     (\<not> regex_test re_script s \<and> \<not> regex_test re_iframe s \<and>
      \<not> regex_test re_javascript s \<and> \<not> regex_test re_data s \<and>
      \<not> regex_test re_handler_quoted s \<and> \<not> regex_test re_handler_unquoted s)"

subsection \<open>Data model\<close>

text \<open>
  The rows of \<^verbatim>\<open>shared/schema.ts\<close>, with the columns the AI routes read.  A
  nullable column is an \<open>option\<close>; a timestamp is its time value in
  milliseconds.  The fields carry a prefix, since several tables have columns
  of the same name.
\<close>

record security_event =
  ev_id :: jsstring
  ev_timestamp :: int
  ev_eventType :: jsstring
  ev_severity :: jsstring
  ev_source :: jsstring
  ev_destination :: "jsstring option"
  ev_user :: "jsstring option"
  ev_description :: jsstring
  ev_action :: "jsstring option"
  ev_status :: "jsstring option"
  ev_category :: "jsstring option"
  ev_ruleName :: "jsstring option"
  ev_tactic :: "jsstring option"
  ev_technique :: "jsstring option"
  ev_rawLog :: "jsstring option"
  ev_metadata :: "jsstring option"

text \<open>The \<^verbatim>\<open>filters\<close> object of a request: each field may be absent.\<close>

record event_filters =
  f_severity :: "jsstring option"
  f_eventType :: "jsstring option"
  f_source :: "jsstring option"
  f_category :: "jsstring option"

record chat_context =
  ctx_eventIds :: "jsstring list"
  ctx_filters :: "event_filters option"

record chat_message =
  msg_id :: jsstring
  msg_sessionId :: jsstring
  msg_userId :: "jsstring option"
  msg_role :: jsstring
  msg_content :: jsstring
  msg_timestamp :: int
  msg_context :: "chat_context option"
  msg_tokenCount :: "nat option"

record analysis_session =
  sess_id :: jsstring
  sess_userId :: "jsstring option"
  sess_title :: jsstring
  sess_createdAt :: int
  sess_updatedAt :: int
  sess_status :: jsstring

text \<open>
  What the routes read and write: the in-memory map of security events (its
  values in insertion order) and the two PostgreSQL tables.
\<close>

record store =
  securityEvents :: "security_event list"
  aiChatMessages :: "chat_message list"
  aiAnalysisSessions :: "analysis_session list"

text \<open>
  The settled result of an asynchronous call: a thrown error, given by its
  \<^verbatim>\<open>message\<close> property when it has one, or a returned value.
\<close>

datatype 'a attempt = Throws "jsstring option" | Returns 'a

subsection \<open>The model backend\<close>

record turn =
  role :: jsstring
  content :: jsstring

record chat_request =
  model :: jsstring
  messages :: "turn list"
  max_completion_tokens :: nat

text \<open>
  Of a completion the routes read \<^verbatim>\<open>choices[0]?.message?.content\<close> and
  \<^verbatim>\<open>usage?.total_tokens\<close>; both may be missing.
\<close>

record completion =
  choice_content :: "jsstring option"
  total_tokens :: "nat option"

subsection \<open>What a request does not determine\<close>

text \<open>
  The environment of one request: whether both OpenAI variables are set
  (\<^verbatim>\<open>isAiConfigured\<close>), the authenticated user, the answer of the model
  backend to a request, the text of the system prompt of each route for a
  list of context events (the template around \<^verbatim>\<open>JSON.stringify\<close>), and the outcome of each
  database statement the route issues: an \<open>INSERT\<close> throws or generates the
  row's identifier and timestamp, the \<open>SELECT\<close> throws or succeeds, and the
  \<open>UPDATE\<close> throws or stores the current time.
\<close>

record env =
  aiConfigured :: bool
  authUser :: "jsstring option"
  complete :: "chat_request \<Rightarrow> completion attempt"
  systemPrompt :: "security_event list \<Rightarrow> jsstring"
  quickSystemPrompt :: "security_event list \<Rightarrow> jsstring"
  insertUserRow :: "(jsstring \<times> int) attempt"
  selectRows :: "unit attempt"
  insertAssistantRow :: "(jsstring \<times> int) attempt"
  updateRow :: "int attempt"

subsection \<open>Storage\<close>

text \<open>
  \<^verbatim>\<open>MemStorage.getSecurityEvents\<close>: the events, most recent first.
  \<^verbatim>\<open>Array.prototype.sort\<close> is stable.
\<close>

definition getSecurityEvents :: "store \<Rightarrow> security_event list" where
  "getSecurityEvents st = sort_key (\<lambda>e. - ev_timestamp e) (securityEvents st)"

text \<open>
  The query of \<^verbatim>\<open>getAiChatMessages\<close>: the rows of the session ordered by
  timestamp (rows of equal timestamp in table order), unless the statement throws.
\<close>

definition select_messages :: "unit attempt \<Rightarrow> store \<Rightarrow> jsstring \<Rightarrow> chat_message list attempt" where
  "select_messages outcome st sid =
     (case outcome of
        Throws e \<Rightarrow> Throws e
      | Returns u \<Rightarrow>
          Returns (sort_key msg_timestamp (filter (\<lambda>m. msg_sessionId m = sid) (aiChatMessages st))))"

text \<open>\<^verbatim>\<open>MemStorage.getAiChatMessages\<close>: the query inside \<^verbatim>\<open>try\<close>, \<^verbatim>\<open>[]\<close> from \<^verbatim>\<open>catch\<close>.\<close>

definition getAiChatMessages :: "unit attempt \<Rightarrow> store \<Rightarrow> jsstring \<Rightarrow> chat_message list attempt" where
  "getAiChatMessages outcome st sid =
     (case select_messages outcome st sid of
        Returns rows \<Rightarrow> Returns rows
      | Throws e \<Rightarrow> Returns [])"

text \<open>
  \<^verbatim>\<open>MemStorage.createAiChatMessage\<close>: insert the row and return it; an error of
  the statement is not caught.  The arguments after the store are the columns
  of \<^verbatim>\<open>InsertAiChatMessage\<close>.
\<close>

definition createAiChatMessage ::
  "(jsstring \<times> int) attempt \<Rightarrow> store \<Rightarrow> jsstring \<Rightarrow> jsstring option \<Rightarrow> jsstring \<Rightarrow> jsstring \<Rightarrow>
   chat_context option \<Rightarrow> nat option \<Rightarrow> chat_message attempt \<times> store" where
  "createAiChatMessage outcome st sid uid r c cx tc =
     (case outcome of
        Throws e \<Rightarrow> (Throws e, st)
      | Returns gen \<Rightarrow>
          (let newMessage = \<lparr>msg_id = fst gen, msg_sessionId = sid, msg_userId = uid, msg_role = r,
                             msg_content = c, msg_timestamp = snd gen, msg_context = cx,
                             msg_tokenCount = tc\<rparr>
           in (Returns newMessage, st\<lparr>aiChatMessages := aiChatMessages st @ [newMessage]\<rparr>)))"

text \<open>
  \<^verbatim>\<open>MemStorage.updateAiAnalysisSession\<close> with \<^verbatim>\<open>{ title }\<close>: set the title and
  \<^verbatim>\<open>updatedAt\<close> of the session with the identifier and return the updated row
  if there is one; \<^verbatim>\<open>undefined\<close> from \<^verbatim>\<open>catch\<close>.
\<close>

definition updateAiAnalysisSession ::
  "int attempt \<Rightarrow> store \<Rightarrow> jsstring \<Rightarrow> jsstring \<Rightarrow> analysis_session option attempt \<times> store" where
  "updateAiAnalysisSession outcome st sid title =
     (case outcome of
        Throws e \<Rightarrow> (Returns None, st)
      | Returns now \<Rightarrow>
          (let updated = map (\<lambda>s. if sess_id s = sid then s\<lparr>sess_title := title, sess_updatedAt := now\<rparr> else s)
                             (aiAnalysisSessions st)
           in (Returns (find (\<lambda>s. sess_id s = sid) updated), st\<lparr>aiAnalysisSessions := updated\<rparr>)))"

subsection \<open>Context selection\<close>

text \<open>A request field that is \<^verbatim>\<open>undefined\<close>, \<^verbatim>\<open>null\<close> or the empty string is falsy.\<close>

definition truthy :: "jsstring option \<Rightarrow> bool" where
  "truthy v = (case v of None \<Rightarrow> False | Some s \<Rightarrow> s \<noteq> [])"

text \<open>The predicate of \<^verbatim>\<open>allEvents.filter\<close> in the \<^verbatim>\<open>filters\<close> branch.\<close>

definition filter_match :: "event_filters \<Rightarrow> security_event \<Rightarrow> bool" where
  "filter_match fs e =
     (if truthy (f_severity fs) \<and> Some (ev_severity e) \<noteq> f_severity fs then False
      else if truthy (f_eventType fs) \<and> Some (ev_eventType e) \<noteq> f_eventType fs then False
      else if truthy (f_source fs) \<and> Some (ev_source e) \<noteq> f_source fs then False
      else if truthy (f_category fs) \<and> ev_category e \<noteq> f_category fs then False
      else True)"

text \<open>\<^verbatim>\<open>contextEvents\<close> of \<^verbatim>\<open>/api/ai/analyze\<close>.\<close>

definition contextEvents_analyze ::
  "security_event list \<Rightarrow> jsstring list option \<Rightarrow> event_filters option \<Rightarrow> security_event list" where
  "contextEvents_analyze allEvents eids fs =
     (case (case eids of None \<Rightarrow> None | Some ids \<Rightarrow> if length ids > 0 then Some ids else None) of
        Some ids \<Rightarrow> filter (\<lambda>e. ev_id e \<in> set ids) allEvents
      | None \<Rightarrow>
          (case fs of
             Some f \<Rightarrow> take 20 (filter (filter_match f) allEvents)
           | None \<Rightarrow> take 15 allEvents))"

text \<open>\<^verbatim>\<open>contextEvents\<close> of \<^verbatim>\<open>/api/ai/quick-analyze\<close>.\<close>

definition contextEvents_quick :: "security_event list \<Rightarrow> jsstring list option \<Rightarrow> security_event list" where
  "contextEvents_quick allEvents eids =
     (case (case eids of None \<Rightarrow> None | Some ids \<Rightarrow> if length ids > 0 then Some ids else None) of
        Some ids \<Rightarrow> filter (\<lambda>e. ev_id e \<in> set ids) allEvents
      | None \<Rightarrow> take 10 allEvents)"

subsection \<open>The routes\<close>

record request =
  sessionId :: "jsstring option"
  message :: "jsstring option"
  eventIds :: "jsstring list option"
  filters :: "event_filters option"

record quick_request =
  question :: "jsstring option"
  quick_eventIds :: "jsstring list option"

text \<open>The JSON responses, by status: 503, 400, 200 (of either route) and 500.\<close>

datatype response =
    ServiceUnavailable jsstring jsstring
  | BadRequest jsstring
  | AnalysisOk chat_message nat nat
  | QuickOk jsstring nat
  | ServerError jsstring "jsstring option"

text \<open>The session title of a first message.\<close>

definition session_title :: "jsstring \<Rightarrow> jsstring" where
  "session_title msg =
     (let titleWords = join_sp (take 5 (split_sp msg))
      in if length titleWords > 30 then take 30 titleWords @ js ''...'' else titleWords)"

text \<open>The \<^verbatim>\<open>catch\<close> block of \<^verbatim>\<open>/api/ai/analyze\<close>.\<close>

definition analyze_failed :: "jsstring option \<Rightarrow> response" where
  "analyze_failed e =
     ServerError (js ''Failed to analyze security events'')
       (if truthy e then e else Some (js ''Unknown error occurred''))"

definition unavailable :: response where
  "unavailable =
     ServiceUnavailable (js ''AI service unavailable'')
       (js ''The AI integration is not configured. Please ensure OpenAI API credentials are set up in Replit's AI Integrations.'')"

text \<open>
  The steps of \<^verbatim>\<open>POST /api/ai/analyze\<close> that the route marks with a comment.
  ``Store user message'':
\<close>

definition store_user_message ::
  "env \<Rightarrow> store \<Rightarrow> jsstring \<Rightarrow> jsstring \<Rightarrow> security_event list \<Rightarrow> event_filters option \<Rightarrow>
   chat_message attempt \<times> store" where
  "store_user_message env st sid msg contextEvents fs =
     createAiChatMessage (insertUserRow env) st sid
       (if truthy (authUser env) then authUser env else None) (js ''user'') msg
       (Some \<lparr>ctx_eventIds = map ev_id contextEvents, ctx_filters = fs\<rparr>) None"

text \<open>
  ``Get previous messages for conversation context'' and ``Call OpenAI for
  analysis'': the request sent to the model backend.
\<close>

definition analysis_prompt ::
  "env \<Rightarrow> security_event list \<Rightarrow> chat_message list \<Rightarrow> jsstring \<Rightarrow> chat_request" where
  "analysis_prompt env contextEvents previousMessages msg =
     (let conversationHistory =
            map (\<lambda>m. \<lparr>role = msg_role m, content = msg_content m\<rparr>) (slice_last 10 previousMessages)
      in \<lparr>model = js ''gpt-5'',
          messages = \<lparr>role = js ''system'', content = systemPrompt env contextEvents\<rparr> #
                     conversationHistory @ [\<lparr>role = js ''user'', content = msg\<rparr>],
          max_completion_tokens = 4096\<rparr>)"

text \<open>\<^verbatim>\<open>completion.usage?.total_tokens || 0\<close>\<close>

definition tokens_used :: "completion \<Rightarrow> nat" where
  "tokens_used c = (case total_tokens c of None \<Rightarrow> 0 | Some n \<Rightarrow> n)"

text \<open>``Store assistant response'':\<close>

definition store_assistant_response ::
  "env \<Rightarrow> store \<Rightarrow> jsstring \<Rightarrow> security_event list \<Rightarrow> completion \<Rightarrow> chat_message attempt \<times> store" where
  "store_assistant_response env st sid contextEvents c =
     createAiChatMessage (insertAssistantRow env) st sid
       (if truthy (authUser env) then authUser env else None) (js ''assistant'')
       (sanitize (choice_content c))
       (Some \<lparr>ctx_eventIds = map ev_id contextEvents, ctx_filters = None\<rparr>) (Some (tokens_used c))"

text \<open>
  \<^verbatim>\<open>POST /api/ai/analyze\<close>.  The result is the response, the store afterwards
  and the requests sent to the model backend, in order.
\<close>

definition analyze :: "env \<Rightarrow> store \<Rightarrow> request \<Rightarrow> response \<times> store \<times> chat_request list" where
  "analyze env st req =
     (if \<not> aiConfigured env then (unavailable, st, [])
      else if \<not> truthy (message req) \<or> \<not> truthy (sessionId req) then
        (BadRequest (js ''Message and sessionId are required''), st, [])
      else
        (let msg = (case message req of None \<Rightarrow> [] | Some m \<Rightarrow> m);
             sid = (case sessionId req of None \<Rightarrow> [] | Some s \<Rightarrow> s);
             allEvents = getSecurityEvents st;
             contextEvents = contextEvents_analyze allEvents (eventIds req) (filters req)
         in case store_user_message env st sid msg contextEvents (filters req) of
              (Throws e, st1) \<Rightarrow> (analyze_failed e, st1, [])
            | (Returns userMessage, st1) \<Rightarrow>
                (case getAiChatMessages (selectRows env) st1 sid of
                   Throws e \<Rightarrow> (analyze_failed e, st1, [])
                 | Returns previousMessages \<Rightarrow>
                     (let prompt = analysis_prompt env contextEvents previousMessages msg
                      in case complete env prompt of
                           Throws e \<Rightarrow> (analyze_failed e, st1, [prompt])
                         | Returns completion \<Rightarrow>
                             (case store_assistant_response env st1 sid contextEvents completion of
                                (Throws e, st2) \<Rightarrow> (analyze_failed e, st2, [prompt])
                              | (Returns savedMessage, st2) \<Rightarrow>
                                  (if previousMessages = [] then
                                     (case updateAiAnalysisSession (updateRow env) st2 sid (session_title msg) of
                                        (Throws e, st3) \<Rightarrow> (analyze_failed e, st3, [prompt])
                                      | (Returns updated, st3) \<Rightarrow>
                                          (AnalysisOk savedMessage (length contextEvents)
                                             (tokens_used completion), st3, [prompt]))
                                   else (AnalysisOk savedMessage (length contextEvents)
                                           (tokens_used completion), st2, [prompt])))))))"

text \<open>\<^verbatim>\<open>POST /api/ai/quick-analyze\<close>.\<close>

definition quickAnalyze :: "env \<Rightarrow> store \<Rightarrow> quick_request \<Rightarrow> response \<times> store \<times> chat_request list" where
  "quickAnalyze env st req =
     (if \<not> aiConfigured env then (unavailable, st, [])
      else if \<not> truthy (question req) then (BadRequest (js ''Question is required''), st, [])
      else
        (let q = (case question req of None \<Rightarrow> [] | Some m \<Rightarrow> m);
             allEvents = getSecurityEvents st;
             contextEvents = contextEvents_quick allEvents (quick_eventIds req);
             prompt = \<lparr>model = js ''gpt-5'',
                       messages = [\<lparr>role = js ''system'', content = quickSystemPrompt env contextEvents\<rparr>,
                                   \<lparr>role = js ''user'', content = q\<rparr>],
                       max_completion_tokens = 2048\<rparr>
         in case complete env prompt of
              Throws e \<Rightarrow> (ServerError (js ''Failed to analyze'') e, st, [prompt])
            | Returns completion \<Rightarrow>
                (QuickOk (sanitize (choice_content completion)) (length contextEvents), st, [prompt])))"

subsection \<open>Notions for the proofs about the expressions\<close>

text \<open>
  Two continuations are related for an extension \<open>v\<close> of the input when the
  second succeeds on the extended input wherever the first succeeds.
\<close>

definition ext_ok :: "jsstring \<Rightarrow> rcont \<Rightarrow> rcont \<Rightarrow> bool" where
  "ext_ok v k k' = (\<forall>p s. k (p, s) \<noteq> None \<longrightarrow> k' (p, s @ v) \<noteq> None)"

text \<open>A continuation advances by \<open>n\<close> when every successful run of it consumes at least \<open>n\<close> code units.\<close>

definition advances :: "nat \<Rightarrow> rcont \<Rightarrow> bool" where
  "advances n k = (\<forall>st r. k st = Some r \<longrightarrow> length (snd r) + n \<le> length (snd st))"

subsection \<open>The claims in the words of the specification\<close>

text \<open>
  A filter field is provided when it is present and not the empty string
  (the route tests the field for truthiness); a provided field must equal
  the event's, an absent one matches every event.
\<close>

definition provided_ok :: "jsstring option \<Rightarrow> jsstring option \<Rightarrow> bool" where
  "provided_ok wanted actual = (if truthy wanted then actual = wanted else True)"

definition matches_all :: "event_filters \<Rightarrow> security_event \<Rightarrow> bool" where
  "matches_all fs e =
     (provided_ok (f_severity fs) (Some (ev_severity e)) \<and>
      provided_ok (f_eventType fs) (Some (ev_eventType e)) \<and>
      provided_ok (f_source fs) (Some (ev_source e)) \<and>
      provided_ok (f_category fs) (ev_category e))"

subsection \<open>Sample data\<close>

definition ex_event :: "jsstring \<Rightarrow> int \<Rightarrow> jsstring \<Rightarrow> jsstring \<Rightarrow> security_event" where
  "ex_event i t sev ty =
     \<lparr>ev_id = i, ev_timestamp = t, ev_eventType = ty, ev_severity = sev, ev_source = js ''10.0.0.1'',
      ev_destination = None, ev_user = None, ev_description = js ''event'', ev_action = None,
      ev_status = None, ev_category = None, ev_ruleName = None, ev_tactic = None,
      ev_technique = None, ev_rawLog = None, ev_metadata = None\<rparr>"

text \<open>A corpus of \<open>n\<close> critical malware events, most recent first.\<close>

definition ex_corpus :: "nat \<Rightarrow> security_event list" where
  "ex_corpus n =
     map (\<lambda>i. ex_event [of_nat i] (int i) (js ''Critical'') (js ''Malware Detected'')) (rev [0..<n])"

definition ex_filters :: event_filters where
  "ex_filters = \<lparr>f_severity = Some (js ''Critical''), f_eventType = Some (js ''Malware Detected''),
                 f_source = None, f_category = None\<rparr>"

text \<open>A store with three events and one fresh session without messages.\<close>

definition ex_store :: store where
  "ex_store =
     \<lparr>securityEvents =
        [ex_event (js ''e1'') 10 (js ''Critical'') (js ''Malware Detected''),
         ex_event (js ''e2'') 30 (js ''Critical'') (js ''Port Scan''),
         ex_event (js ''e3'') 20 (js ''Low'') (js ''Malware Detected'')],
      aiChatMessages = [],
      aiAnalysisSessions =
        [\<lparr>sess_id = js ''s1'', sess_userId = None, sess_title = js ''New Analysis Session'',
          sess_createdAt = 50, sess_updatedAt = 50, sess_status = js ''active''\<rparr>]\<rparr>"

text \<open>The same store with a stored system turn and a stored user turn in the session.\<close>

definition ex_store_system :: store where
  "ex_store_system =
     ex_store\<lparr>aiChatMessages :=
       [\<lparr>msg_id = js ''m0'', msg_sessionId = js ''s1'', msg_userId = None, msg_role = js ''system'',
         msg_content = js ''Be brief.'', msg_timestamp = 60, msg_context = None, msg_tokenCount = None\<rparr>]\<rparr>"

text \<open>
  A configured environment in which every database statement succeeds and the
  model backend answers.
\<close>

definition ex_env :: env where
  "ex_env =
     \<lparr>aiConfigured = True, authUser = Some (js ''u1''),
      complete = (\<lambda>p. Returns \<lparr>choice_content = Some (js ''All clear.''), total_tokens = Some 42\<rparr>),
      systemPrompt = (\<lambda>es. js ''SYSTEM''), quickSystemPrompt = (\<lambda>es. js ''QUICK''),
      insertUserRow = Returns (js ''m1'', 100), selectRows = Returns (),
      insertAssistantRow = Returns (js ''m2'', 101), updateRow = Returns 102\<rparr>"

text \<open>The same without the OpenAI variables.\<close>

definition ex_env_unconfigured :: env where
  "ex_env_unconfigured = ex_env\<lparr>aiConfigured := False\<rparr>"

text \<open>The same with a model backend that throws.\<close>

definition ex_env_throwing :: env where
  "ex_env_throwing = ex_env\<lparr>complete := (\<lambda>p. Throws (Some (js ''timeout'')))\<rparr>"

text \<open>The same with a model backend that returns no content.\<close>

definition ex_env_silent :: env where
  "ex_env_silent = ex_env\<lparr>complete := (\<lambda>p. Returns \<lparr>choice_content = None, total_tokens = None\<rparr>)\<rparr>"

definition ex_request :: request where
  "ex_request =
     \<lparr>sessionId = Some (js ''s1''),
      message = Some (js ''Investigate the critical SQL injection alerts from last night please''),
      eventIds = None, filters = None\<rparr>"

section \<open>Properties\<close>

subsection \<open>Storage and context selection\<close>

lemma in_set_nonempty: "x \<in> set xs \<Longrightarrow> xs \<noteq> []"
  by auto

lemma filter_match_eq: "filter_match f e = matches_all f e"
  by (auto simp: filter_match_def matches_all_def provided_ok_def)

lemma createAiChatMessage_Returns:
  "createAiChatMessage (Returns g) st sid uid r c cx tc =
     (Returns \<lparr>msg_id = fst g, msg_sessionId = sid, msg_userId = uid, msg_role = r,
               msg_content = c, msg_timestamp = snd g, msg_context = cx, msg_tokenCount = tc\<rparr>,
      st\<lparr>aiChatMessages := aiChatMessages st @
        [\<lparr>msg_id = fst g, msg_sessionId = sid, msg_userId = uid, msg_role = r,
          msg_content = c, msg_timestamp = snd g, msg_context = cx, msg_tokenCount = tc\<rparr>]\<rparr>)"
  by (simp add: createAiChatMessage_def Let_def)

lemma createAiChatMessage_cases:
  "createAiChatMessage outcome st sid uid r c cx tc = (res, st') \<Longrightarrow>
     (\<exists>e. res = Throws e \<and> st' = st) \<or>
     (\<exists>row. res = Returns row \<and> st' = st\<lparr>aiChatMessages := aiChatMessages st @ [row]\<rparr> \<and>
        msg_sessionId row = sid \<and> msg_role row = r \<and> msg_content row = c)"
  by (cases outcome) (auto simp: createAiChatMessage_def Let_def)

lemma updateAiAnalysisSession_messages:
  "updateAiAnalysisSession outcome st sid t = (res, st') \<Longrightarrow>
     aiChatMessages st' = aiChatMessages st \<and> (\<exists>u. res = Returns u)"
  by (cases outcome) (auto simp: updateAiAnalysisSession_def Let_def)

text \<open>
  Claim C5.  The context selection is bounded: without event identifiers, a
  request of \<^verbatim>\<open>/api/ai/analyze\<close> with a filter object gets at most 20 events
  and one without a filter at most 15; a request of
  \<^verbatim>\<open>/api/ai/quick-analyze\<close> without event identifiers gets at most 10.
\<close>

theorem context_size_bounds:
  assumes "eids = None \<or> eids = Some []"
  shows "length (contextEvents_analyze allEvents eids (Some f)) \<le> 20 \<and>
         length (contextEvents_analyze allEvents eids None) \<le> 15 \<and>
         length (contextEvents_quick allEvents eids) \<le> 10"
  using assms by (auto simp: contextEvents_analyze_def contextEvents_quick_def)

theorem context_size_bounds_witness:
  "length (contextEvents_analyze (ex_corpus 25) None (Some ex_filters)) \<le> 20 \<and>
   length (contextEvents_analyze (ex_corpus 25) None None) \<le> 15 \<and>
   length (contextEvents_quick (ex_corpus 25) None) \<le> 10"
  using context_size_bounds [of None "ex_corpus 25" ex_filters] by simp

text \<open>
  Claim C6.  With a filter object and no event identifiers, the context is
  exactly the events of the corpus that match every provided filter field
  (severity, event type, source, category, each by equality; an absent field
  matches every event), cut to the first 20 in the order of the corpus, which
  \<^verbatim>\<open>getSecurityEvents\<close> delivers most recent first; so an event that fails
  a provided field is not in the context.
\<close>

theorem filter_context_exact:
  assumes "eids = None \<or> eids = Some []"
  shows "contextEvents_analyze (getSecurityEvents st) eids (Some f) =
           take 20 (filter (matches_all f) (getSecurityEvents st)) \<and>
         sorted (map (\<lambda>e. - ev_timestamp e) (getSecurityEvents st)) \<and>
         (\<forall>e \<in> set (contextEvents_analyze (getSecurityEvents st) eids (Some f)). matches_all f e)"
proof -
  have sel: "contextEvents_analyze (getSecurityEvents st) eids (Some f) =
           take 20 (filter (matches_all f) (getSecurityEvents st))"
    using assms by (auto simp: contextEvents_analyze_def filter_match_eq [abs_def])
  have srt: "sorted (map (\<lambda>e. - ev_timestamp e) (getSecurityEvents st))"
    by (simp add: getSecurityEvents_def)
  have mem: "\<forall>e \<in> set (take 20 (filter (matches_all f) (getSecurityEvents st))). matches_all f e"
    by (auto dest: in_set_takeD)
  show ?thesis unfolding sel using srt mem by blast
qed

text \<open>
  The example of the specification: of a critical malware event, a critical
  port scan and a low malware event, the filter for critical malware keeps
  the first only.
\<close>

theorem filter_context_exact_witness:
  "contextEvents_analyze (getSecurityEvents ex_store) None (Some ex_filters) =
     take 20 (filter (matches_all ex_filters) (getSecurityEvents ex_store)) \<and>
   map ev_id (contextEvents_analyze (getSecurityEvents ex_store) None (Some ex_filters)) = [js ''e1'']"
proof -
  have h: "None = None \<or> None = Some ([] :: jsstring list)" by simp
  have ids: "map ev_id (contextEvents_analyze (getSecurityEvents ex_store) None (Some ex_filters)) =
      [js ''e1'']"
    by code_simp
  have "contextEvents_analyze (getSecurityEvents ex_store) None (Some ex_filters) =
     take 20 (filter (matches_all ex_filters) (getSecurityEvents ex_store))"
    using filter_context_exact [OF h, of ex_store ex_filters] by (rule conjunct1)
  then show ?thesis using ids by (rule conjI)
qed

text \<open>
  Claim C7.  With a non-empty list of event identifiers, either route takes
  as context exactly the events of the corpus whose identifier is in the
  list, in the order of the corpus; nothing cuts the result, so its only
  bound is the length of the list (identifiers are unique in the corpus).
\<close>

theorem event_id_context_exact:
  assumes "eids = Some ids" and "ids \<noteq> []"
  shows "contextEvents_analyze allEvents eids fs = filter (\<lambda>e. ev_id e \<in> set ids) allEvents \<and>
         contextEvents_quick allEvents eids = filter (\<lambda>e. ev_id e \<in> set ids) allEvents \<and>
         (distinct (map ev_id allEvents) \<longrightarrow>
            length (filter (\<lambda>e. ev_id e \<in> set ids) allEvents) \<le> length ids)"
proof -
  have "length (filter (\<lambda>e. ev_id e \<in> set ids) allEvents) \<le> length ids"
    if d: "distinct (map ev_id allEvents)"
  proof -
    have "length (filter (\<lambda>e. ev_id e \<in> set ids) allEvents) =
          length (filter (\<lambda>i. i \<in> set ids) (map ev_id allEvents))"
      by (simp add: filter_map comp_def)
    also have "\<dots> = card (set (filter (\<lambda>i. i \<in> set ids) (map ev_id allEvents)))"
      by (rule distinct_card [symmetric]) (rule distinct_filter [OF d])
    also have "\<dots> \<le> card (set ids)"
      by (rule card_mono) auto
    also have "\<dots> \<le> length ids" by (rule card_length)
    finally show ?thesis .
  qed
  then show ?thesis using assms
    by (auto simp: contextEvents_analyze_def contextEvents_quick_def)
qed

text \<open>The events come back in the order of the corpus, not of the request.\<close>

theorem event_id_context_exact_witness:
  "map ev_id (contextEvents_analyze (getSecurityEvents ex_store) (Some [js ''e1'', js ''e3'']) None) =
     [js ''e3'', js ''e1''] \<and>
   contextEvents_quick (getSecurityEvents ex_store) (Some [js ''e1'', js ''e3'']) =
     contextEvents_analyze (getSecurityEvents ex_store) (Some [js ''e1'', js ''e3'']) None \<and>
   length (contextEvents_analyze (ex_corpus 25) (Some (map ev_id (ex_corpus 25))) (Some ex_filters)) = 25"
proof -
  have a: "map ev_id (contextEvents_analyze (getSecurityEvents ex_store) (Some [js ''e1'', js ''e3'']) None) =
     [js ''e3'', js ''e1'']"
    by code_simp
  have b: "[js ''e1'', js ''e3''] \<noteq> []" by simp
  have c: "map ev_id (ex_corpus 25) \<noteq> []" by (simp add: ex_corpus_def)
  have d: "filter (\<lambda>e. ev_id e \<in> set (map ev_id (ex_corpus 25))) (ex_corpus 25) = ex_corpus 25"
    by (rule filter_True) simp
  show ?thesis
    using a event_id_context_exact [OF refl b, of "getSecurityEvents ex_store" None]
      event_id_context_exact [OF refl c, of "ex_corpus 25" "Some ex_filters"] d
    by (simp add: ex_corpus_def)
qed

text \<open>
  Claim C10.  \<^verbatim>\<open>getAiChatMessages\<close> never throws: it returns the rows of the
  session in ascending order of timestamp, and the empty list when the
  database read fails, which is what it returns for a session without
  messages.
\<close>

theorem getAiChatMessages_never_throws:
  "(\<exists>rows. getAiChatMessages outcome st sid = Returns rows) \<and>
   getAiChatMessages (Returns ()) st sid =
     Returns (sort_key msg_timestamp (filter (\<lambda>m. msg_sessionId m = sid) (aiChatMessages st))) \<and>
   sorted (map msg_timestamp
     (sort_key msg_timestamp (filter (\<lambda>m. msg_sessionId m = sid) (aiChatMessages st)))) \<and>
   getAiChatMessages (Throws e) st sid = Returns [] \<and>
   getAiChatMessages (Throws e) st sid = getAiChatMessages (Returns ()) (st\<lparr>aiChatMessages := []\<rparr>) sid"
  by (cases outcome) (simp_all add: getAiChatMessages_def select_messages_def)

theorem getAiChatMessages_never_throws_witness:
  "map msg_id (case getAiChatMessages (Returns ()) ex_store_system (js ''s1'') of
                 Returns rows \<Rightarrow> rows | Throws e \<Rightarrow> []) = [js ''m0''] \<and>
   getAiChatMessages (Throws None) ex_store_system (js ''s1'') = Returns [] \<and>
   getAiChatMessages (Returns ()) ex_store (js ''s1'') = Returns []"
proof -
  have "sort_key msg_timestamp (filter (\<lambda>m. msg_sessionId m = js ''s1'') (aiChatMessages ex_store_system)) =
        aiChatMessages ex_store_system"
    by (simp add: ex_store_system_def)
  moreover have "map msg_id (aiChatMessages ex_store_system) = [js ''m0'']"
    by (simp add: ex_store_system_def)
  moreover have "aiChatMessages ex_store = []"
    by (simp add: ex_store_def)
  ultimately show ?thesis
    using getAiChatMessages_never_throws [of "Returns ()" ex_store_system "js ''s1''" None]
      getAiChatMessages_never_throws [of "Returns ()" ex_store "js ''s1''" None]
    by simp
qed

subsection \<open>The analysis route\<close>

lemma analyze_valid:
  assumes "aiConfigured env" "message req = Some msg" "msg \<noteq> []" "sessionId req = Some sid" "sid \<noteq> []"
  shows "analyze env st req =
     (let contextEvents = contextEvents_analyze (getSecurityEvents st) (eventIds req) (filters req)
         in case store_user_message env st sid msg contextEvents (filters req) of
              (Throws e, st1) \<Rightarrow> (analyze_failed e, st1, [])
            | (Returns userMessage, st1) \<Rightarrow>
                (case getAiChatMessages (selectRows env) st1 sid of
                   Throws e \<Rightarrow> (analyze_failed e, st1, [])
                 | Returns previousMessages \<Rightarrow>
                     (let prompt = analysis_prompt env contextEvents previousMessages msg
                      in case complete env prompt of
                           Throws e \<Rightarrow> (analyze_failed e, st1, [prompt])
                         | Returns completion \<Rightarrow>
                             (case store_assistant_response env st1 sid contextEvents completion of
                                (Throws e, st2) \<Rightarrow> (analyze_failed e, st2, [prompt])
                              | (Returns savedMessage, st2) \<Rightarrow>
                                  (if previousMessages = [] then
                                     (case updateAiAnalysisSession (updateRow env) st2 sid (session_title msg) of
                                        (Throws e, st3) \<Rightarrow> (analyze_failed e, st3, [prompt])
                                      | (Returns updated, st3) \<Rightarrow>
                                          (AnalysisOk savedMessage (length contextEvents)
                                             (tokens_used completion), st3, [prompt]))
                                   else (AnalysisOk savedMessage (length contextEvents)
                                           (tokens_used completion), st2, [prompt]))))))"
  using assms by (simp add: analyze_def truthy_def)

lemma getAiChatMessages_total: "\<exists>rows. getAiChatMessages outcome st sid = Returns rows"
  by (cases outcome) (simp_all add: getAiChatMessages_def select_messages_def)

lemma store_user_message_Returns:
  assumes "insertUserRow env = Returns g"
  shows "\<exists>userMessage. store_user_message env st sid msg ctx fs =
           (Returns userMessage, st\<lparr>aiChatMessages := aiChatMessages st @ [userMessage]\<rparr>) \<and>
         msg_sessionId userMessage = sid \<and> msg_role userMessage = js ''user'' \<and>
         msg_content userMessage = msg"
  by (simp add: store_user_message_def assms createAiChatMessage_Returns)

text \<open>The request sent to the model backend once the user turn is stored.\<close>

lemma analyze_prompt_sent:
  assumes "aiConfigured env" and "message req = Some msg" and "msg \<noteq> []"
    and "sessionId req = Some sid" and "sid \<noteq> []"
    and "store_user_message env st sid msg
           (contextEvents_analyze (getSecurityEvents st) (eventIds req) (filters req)) (filters req) =
         (Returns userMessage, st1)"
    and "getAiChatMessages (selectRows env) st1 sid = Returns previousMessages"
  shows "snd (snd (analyze env st req)) =
           [analysis_prompt env (contextEvents_analyze (getSecurityEvents st) (eventIds req) (filters req))
              previousMessages msg]"
  using assms(6,7)
  by (simp add: analyze_valid [OF assms(1-5)] Let_def split: attempt.split prod.split)

lemma getAiChatMessages_sorted:
  "getAiChatMessages outcome st sid = Returns rows \<Longrightarrow> sorted (map msg_timestamp rows)"
  by (cases outcome) (auto simp: getAiChatMessages_def select_messages_def)

text \<open>
  Claim C1, as the route has it.  While the model backend is not configured,
  a request of \<^verbatim>\<open>/api/ai/analyze\<close> never reaches the model backend and is
  answered with the service-unavailable response and its explanation; the
  check comes first, so the store stays as it was: neither the user's message
  nor an assistant message is persisted.
\<close>

theorem unconfigured_backend_no_side_effect:
  "\<not> aiConfigured env \<Longrightarrow> analyze env st req = (unavailable, st, [])"
  by (simp add: analyze_def)

theorem unconfigured_backend_no_side_effect_witness:
  "analyze ex_env_unconfigured ex_store ex_request = (unavailable, ex_store, [])"
proof -
  have "\<not> aiConfigured ex_env_unconfigured"
    by (simp add: ex_env_unconfigured_def)
  then show ?thesis
    by (rule unconfigured_backend_no_side_effect)
qed

text \<open>
  Claim C1 as stated fails: after a request with a session and a message to
  the unconfigured route, the message table is still empty.
\<close>

theorem unconfigured_user_message_not_persisted:
  "aiChatMessages (fst (snd (analyze ex_env_unconfigured ex_store ex_request))) = []"
  by (simp add: analyze_def ex_env_unconfigured_def ex_store_def)

text \<open>
  Claim C2, as the route has it.  Once the user turn is stored, the request
  sent to the model backend is the system instruction, then the last turns of
  the session history as the route reads it from the store, at most 10 of
  them, oldest first, each with its stored role and content unchanged (no
  role is left out), then the new user turn.
\<close>

theorem prompt_replays_last_ten_stored_turns:
  assumes "aiConfigured env" and "message req = Some msg" and "msg \<noteq> []"
    and "sessionId req = Some sid" and "sid \<noteq> []"
    and "insertUserRow env = Returns g"
  shows "\<exists>userMessage st1 previousMessages.
           store_user_message env st sid msg
             (contextEvents_analyze (getSecurityEvents st) (eventIds req) (filters req)) (filters req) =
             (Returns userMessage, st1) \<and>
           getAiChatMessages (selectRows env) st1 sid = Returns previousMessages \<and>
           sorted (map msg_timestamp previousMessages) \<and>
           (\<exists>older. previousMessages = older @ slice_last 10 previousMessages) \<and>
           length (slice_last 10 previousMessages) \<le> 10 \<and>
           map messages (snd (snd (analyze env st req))) =
             [\<lparr>role = js ''system'',
               content = systemPrompt env
                 (contextEvents_analyze (getSecurityEvents st) (eventIds req) (filters req))\<rparr> #
              map (\<lambda>m. \<lparr>role = msg_role m, content = msg_content m\<rparr>) (slice_last 10 previousMessages) @
              [\<lparr>role = js ''user'', content = msg\<rparr>]]"
proof -
  let ?ctx = "contextEvents_analyze (getSecurityEvents st) (eventIds req) (filters req)"
  from store_user_message_Returns [OF assms(6), of st sid msg ?ctx "filters req"]
  obtain userMessage where
    um: "store_user_message env st sid msg ?ctx (filters req) =
           (Returns userMessage, st\<lparr>aiChatMessages := aiChatMessages st @ [userMessage]\<rparr>)"
    by blast
  let ?st1 = "st\<lparr>aiChatMessages := aiChatMessages st @ [userMessage]\<rparr>"
  obtain previousMessages where
    pm: "getAiChatMessages (selectRows env) ?st1 sid = Returns previousMessages"
    using getAiChatMessages_total by blast
  have srt: "sorted (map msg_timestamp previousMessages)"
    using pm by (rule getAiChatMessages_sorted)
  have suff: "\<exists>older. previousMessages = older @ slice_last 10 previousMessages"
    unfolding slice_last_def by (metis append_take_drop_id)
  have len: "length (slice_last 10 previousMessages) \<le> 10"
    by (simp add: slice_last_def)
  have sent: "map messages (snd (snd (analyze env st req))) =
             [\<lparr>role = js ''system'', content = systemPrompt env ?ctx\<rparr> #
              map (\<lambda>m. \<lparr>role = msg_role m, content = msg_content m\<rparr>) (slice_last 10 previousMessages) @
              [\<lparr>role = js ''user'', content = msg\<rparr>]]"
    by (simp add: analyze_prompt_sent [OF assms(1-5) um pm] analysis_prompt_def)
  show ?thesis
    by (rule exI [of _ userMessage], rule exI [of _ ?st1], rule exI [of _ previousMessages])
       (intro conjI um pm srt suff len sent)
qed

theorem prompt_replays_last_ten_stored_turns_witness:
  "\<exists>userMessage st1 previousMessages.
     store_user_message ex_env ex_store_system (js ''s1'')
       (js ''Investigate the critical SQL injection alerts from last night please'')
       (contextEvents_analyze (getSecurityEvents ex_store_system) (eventIds ex_request) (filters ex_request))
       (filters ex_request) = (Returns userMessage, st1) \<and>
     getAiChatMessages (selectRows ex_env) st1 (js ''s1'') = Returns previousMessages \<and>
     sorted (map msg_timestamp previousMessages) \<and>
     (\<exists>older. previousMessages = older @ slice_last 10 previousMessages) \<and>
     length (slice_last 10 previousMessages) \<le> 10 \<and>
     map messages (snd (snd (analyze ex_env ex_store_system ex_request))) =
       [\<lparr>role = js ''system'',
         content = systemPrompt ex_env
           (contextEvents_analyze (getSecurityEvents ex_store_system) (eventIds ex_request)
              (filters ex_request))\<rparr> #
        map (\<lambda>m. \<lparr>role = msg_role m, content = msg_content m\<rparr>) (slice_last 10 previousMessages) @
        [\<lparr>role = js ''user'',
          content = js ''Investigate the critical SQL injection alerts from last night please''\<rparr>]]"
proof (rule prompt_replays_last_ten_stored_turns [where g = "(js ''m1'', 100)"])
  show "aiConfigured ex_env" by (simp add: ex_env_def)
  show "message ex_request =
      Some (js ''Investigate the critical SQL injection alerts from last night please'')"
    by (simp add: ex_request_def)
  show "js ''Investigate the critical SQL injection alerts from last night please'' \<noteq> []"
    by (simp add: js_def)
  show "sessionId ex_request = Some (js ''s1'')" by (simp add: ex_request_def)
  show "js ''s1'' \<noteq> []" by (simp add: js_def)
  show "insertUserRow ex_env = Returns (js ''m1'', 100)" by (simp add: ex_env_def)
qed

text \<open>
  Claim C2 as stated fails: a stored turn of role \<open>system\<close> is replayed with
  that role, here right after the system instruction.
\<close>

theorem stored_system_turn_replayed:
  "map (map role \<circ> messages) (snd (snd (analyze ex_env ex_store_system ex_request))) =
     [[js ''system'', js ''system'', js ''user'', js ''user'']]"
  by code_simp

lemma analyze_backend_outcomes:
  assumes "aiConfigured env" and "message req = Some msg" and "msg \<noteq> []"
    and "sessionId req = Some sid" and "sid \<noteq> []"
    and "store_user_message env st sid msg
           (contextEvents_analyze (getSecurityEvents st) (eventIds req) (filters req)) (filters req) =
         (Returns userMessage, st1)"
    and "getAiChatMessages (selectRows env) st1 sid = Returns previousMessages"
    and "prompt = analysis_prompt env
           (contextEvents_analyze (getSecurityEvents st) (eventIds req) (filters req)) previousMessages msg"
  shows "(\<forall>e. complete env prompt = Throws e \<longrightarrow>
            analyze env st req = (analyze_failed e, st1, [prompt])) \<and>
         (\<forall>c g. complete env prompt = Returns c \<and> \<not> truthy (choice_content c) \<and>
            insertAssistantRow env = Returns g \<longrightarrow>
            (\<exists>saved st'. analyze env st req =
                 (AnalysisOk saved
                    (length (contextEvents_analyze (getSecurityEvents st) (eventIds req) (filters req)))
                    (tokens_used c), st', [prompt]) \<and>
               msg_role saved = js ''assistant'' \<and> msg_content saved = fallback_text \<and>
               aiChatMessages st' = aiChatMessages st1 @ [saved]))"
proof -
  let ?ctx = "contextEvents_analyze (getSecurityEvents st) (eventIds req) (filters req)"
  note av = analyze_valid [OF assms(1-5), of st]
  have t: "analyze env st req = (analyze_failed e, st1, [prompt])" if "complete env prompt = Throws e" for e
    using that assms(6,7,8) by (simp add: av Let_def)
  have r: "\<exists>saved st'. analyze env st req = (AnalysisOk saved (length ?ctx) (tokens_used c), st', [prompt]) \<and>
               msg_role saved = js ''assistant'' \<and> msg_content saved = fallback_text \<and>
               aiChatMessages st' = aiChatMessages st1 @ [saved]"
    if h: "complete env prompt = Returns c" "\<not> truthy (choice_content c)" "insertAssistantRow env = Returns g"
    for c g
  proof -
    have fb: "sanitize (choice_content c) = fallback_text"
      using h(2) by (auto simp: sanitize_def sanitizeAiResponse_def truthy_def split: option.splits)
    define saved where "saved = \<lparr>msg_id = fst g, msg_sessionId = sid,
        msg_userId = (if truthy (authUser env) then authUser env else None), msg_role = js ''assistant'',
        msg_content = fallback_text, msg_timestamp = snd g,
        msg_context = Some \<lparr>ctx_eventIds = map ev_id ?ctx, ctx_filters = None\<rparr>,
        msg_tokenCount = Some (tokens_used c)\<rparr>"
    have sa: "store_assistant_response env st1 sid ?ctx c =
        (Returns saved, st1\<lparr>aiChatMessages := aiChatMessages st1 @ [saved]\<rparr>)"
      by (simp add: store_assistant_response_def h(3) fb createAiChatMessage_Returns saved_def)
    show ?thesis
    proof (cases "previousMessages = []")
      case False
      then have "analyze env st req = (AnalysisOk saved (length ?ctx) (tokens_used c),
          st1\<lparr>aiChatMessages := aiChatMessages st1 @ [saved]\<rparr>, [prompt])"
        using assms(6,7,8) h(1) sa by (simp add: av Let_def)
      then show ?thesis by (auto simp: saved_def)
    next
      case True
      obtain r3 st3 where up: "updateAiAnalysisSession (updateRow env)
           (st1\<lparr>aiChatMessages := aiChatMessages st1 @ [saved]\<rparr>) sid (session_title msg) = (r3, st3)"
        by (cases "updateAiAnalysisSession (updateRow env)
           (st1\<lparr>aiChatMessages := aiChatMessages st1 @ [saved]\<rparr>) sid (session_title msg)") auto
      from updateAiAnalysisSession_messages [OF up]
      obtain u3 where u3: "r3 = Returns u3" "aiChatMessages st3 = aiChatMessages st1 @ [saved]" by auto
      have "analyze env st req = (AnalysisOk saved (length ?ctx) (tokens_used c), st3, [prompt])"
        using assms(6,7,8) h(1) sa True up u3(1) by (simp add: av Let_def)
      then show ?thesis using u3(2) by (auto simp: saved_def)
    qed
  qed
  show ?thesis using t r by blast
qed

text \<open>
  Claim C4, as the route has it.  With the user turn stored: when the model
  backend throws, the route answers with the error response that carries the
  error's message and stores nothing more, so no assistant turn is persisted;
  when the model backend returns no usable content (none, or the empty
  string), the route stores an assistant turn whose content is the fallback
  text of the sanitizer and answers with the ordinary success response that
  carries this turn.
\<close>

theorem backend_failure_outcomes:
  assumes "aiConfigured env" and "message req = Some msg" and "msg \<noteq> []"
    and "sessionId req = Some sid" and "sid \<noteq> []"
    and "insertUserRow env = Returns g"
  shows "\<exists>userMessage st1 previousMessages prompt.
           aiChatMessages st1 = aiChatMessages st @ [userMessage] \<and>
           msg_role userMessage = js ''user'' \<and> msg_content userMessage = msg \<and>
           getAiChatMessages (selectRows env) st1 sid = Returns previousMessages \<and>
           prompt = analysis_prompt env
             (contextEvents_analyze (getSecurityEvents st) (eventIds req) (filters req))
             previousMessages msg \<and>
           (\<forall>e. complete env prompt = Throws e \<longrightarrow>
              analyze env st req = (analyze_failed e, st1, [prompt])) \<and>
           (\<forall>c g2. complete env prompt = Returns c \<and> \<not> truthy (choice_content c) \<and>
              insertAssistantRow env = Returns g2 \<longrightarrow>
              (\<exists>saved st'. analyze env st req =
                   (AnalysisOk saved
                      (length (contextEvents_analyze (getSecurityEvents st) (eventIds req) (filters req)))
                      (tokens_used c), st', [prompt]) \<and>
                 msg_role saved = js ''assistant'' \<and> msg_content saved = fallback_text \<and>
                 aiChatMessages st' = aiChatMessages st1 @ [saved]))"
proof -
  let ?ctx = "contextEvents_analyze (getSecurityEvents st) (eventIds req) (filters req)"
  from store_user_message_Returns [OF assms(6), of st sid msg ?ctx "filters req"]
  obtain userMessage where
    um: "store_user_message env st sid msg ?ctx (filters req) =
           (Returns userMessage, st\<lparr>aiChatMessages := aiChatMessages st @ [userMessage]\<rparr>)"
    and ur: "msg_role userMessage = js ''user''" and uc: "msg_content userMessage = msg"
    by blast
  let ?st1 = "st\<lparr>aiChatMessages := aiChatMessages st @ [userMessage]\<rparr>"
  obtain previousMessages where
    pm: "getAiChatMessages (selectRows env) ?st1 sid = Returns previousMessages"
    using getAiChatMessages_total by blast
  have st1: "aiChatMessages ?st1 = aiChatMessages st @ [userMessage]" by simp
  note out = analyze_backend_outcomes [OF assms(1-5) um pm refl]
  show ?thesis
    by (rule exI [of _ userMessage], rule exI [of _ ?st1], rule exI [of _ previousMessages],
        rule exI [of _ "analysis_prompt env ?ctx previousMessages msg"])
       (intro conjI st1 ur uc pm refl out [THEN conjunct1] out [THEN conjunct2])
qed

theorem backend_failure_outcomes_witness:
  "(\<exists>userMessage st1 prompt.
      analyze ex_env_throwing ex_store ex_request =
        (analyze_failed (Some (js ''timeout'')), st1, [prompt]) \<and>
      aiChatMessages st1 = aiChatMessages ex_store @ [userMessage] \<and>
      msg_role userMessage = js ''user'') \<and>
   (\<exists>saved st' prompt.
      analyze ex_env_silent ex_store ex_request =
        (AnalysisOk saved
           (length (contextEvents_analyze (getSecurityEvents ex_store) (eventIds ex_request)
              (filters ex_request))) 0, st', [prompt]) \<and>
      msg_role saved = js ''assistant'' \<and> msg_content saved = fallback_text)"
proof
  have m: "message ex_request =
      Some (js ''Investigate the critical SQL injection alerts from last night please'')"
    by (simp add: ex_request_def)
  have mn: "js ''Investigate the critical SQL injection alerts from last night please'' \<noteq> []"
    by (simp add: js_def)
  have s: "sessionId ex_request = Some (js ''s1'')" by (simp add: ex_request_def)
  have sn: "js ''s1'' \<noteq> []" by (simp add: js_def)
  have ct: "aiConfigured ex_env_throwing" by (simp add: ex_env_throwing_def ex_env_def)
  have it: "insertUserRow ex_env_throwing = Returns (js ''m1'', 100)"
    by (simp add: ex_env_throwing_def ex_env_def)
  have th: "complete ex_env_throwing p = Throws (Some (js ''timeout''))" for p
    by (simp add: ex_env_throwing_def)
  from backend_failure_outcomes [OF ct m mn s sn it, of ex_store]
  obtain userMessage st1 prompt where
    "aiChatMessages st1 = aiChatMessages ex_store @ [userMessage]"
    "msg_role userMessage = js ''user''"
    "\<forall>e. complete ex_env_throwing prompt = Throws e \<longrightarrow>
       analyze ex_env_throwing ex_store ex_request = (analyze_failed e, st1, [prompt])"
    by blast
  then show "\<exists>userMessage st1 prompt.
      analyze ex_env_throwing ex_store ex_request =
        (analyze_failed (Some (js ''timeout'')), st1, [prompt]) \<and>
      aiChatMessages st1 = aiChatMessages ex_store @ [userMessage] \<and>
      msg_role userMessage = js ''user''"
    using th by blast
  have cs: "aiConfigured ex_env_silent" by (simp add: ex_env_silent_def ex_env_def)
  have ius: "insertUserRow ex_env_silent = Returns (js ''m1'', 100)"
    by (simp add: ex_env_silent_def ex_env_def)
  have ias: "insertAssistantRow ex_env_silent = Returns (js ''m2'', 101)"
    by (simp add: ex_env_silent_def ex_env_def)
  have sl: "complete ex_env_silent p = Returns \<lparr>choice_content = None, total_tokens = None\<rparr>" for p
    by (simp add: ex_env_silent_def)
  have nt: "\<not> truthy (choice_content \<lparr>choice_content = None, total_tokens = None\<rparr>)"
    by (simp add: truthy_def)
  have tu: "tokens_used \<lparr>choice_content = None, total_tokens = None\<rparr> = 0"
    by (simp add: tokens_used_def)
  from backend_failure_outcomes [OF cs m mn s sn ius, of ex_store]
  show "\<exists>saved st' prompt.
      analyze ex_env_silent ex_store ex_request =
        (AnalysisOk saved
           (length (contextEvents_analyze (getSecurityEvents ex_store) (eventIds ex_request)
              (filters ex_request))) 0, st', [prompt]) \<and>
      msg_role saved = js ''assistant'' \<and> msg_content saved = fallback_text"
  proof (elim exE conjE)
    fix st2 prompt
    assume "\<forall>c g2. complete ex_env_silent prompt = Returns c \<and> \<not> truthy (choice_content c) \<and>
        insertAssistantRow ex_env_silent = Returns g2 \<longrightarrow>
        (\<exists>saved st'. analyze ex_env_silent ex_store ex_request =
             (AnalysisOk saved
                (length (contextEvents_analyze (getSecurityEvents ex_store) (eventIds ex_request)
                   (filters ex_request)))
                (tokens_used c), st', [prompt]) \<and>
           msg_role saved = js ''assistant'' \<and> msg_content saved = fallback_text \<and>
           aiChatMessages st' = aiChatMessages st2 @ [saved])"
    from this [rule_format, OF conjI [OF sl conjI [OF nt ias]]]
    show "\<exists>saved st' prompt.
      analyze ex_env_silent ex_store ex_request =
        (AnalysisOk saved
           (length (contextEvents_analyze (getSecurityEvents ex_store) (eventIds ex_request)
              (filters ex_request))) 0, st', [prompt]) \<and>
      msg_role saved = js ''assistant'' \<and> msg_content saved = fallback_text"
      unfolding tu by blast
  qed
qed

text \<open>
  Claim C4 as stated fails: when the model backend throws, the only stored
  turn of the session is the user's, and the caller gets the error response.
\<close>

theorem backend_throw_no_assistant_turn:
  "map msg_role (aiChatMessages (fst (snd (analyze ex_env_throwing ex_store ex_request)))) =
     [js ''user''] \<and>
   fst (analyze ex_env_throwing ex_store ex_request) =
     ServerError (js ''Failed to analyze security events'') (Some (js ''timeout''))"
  by code_simp

text \<open>
  Claim C8 fails on the route.  The route reads the history after it has
  stored the user turn, so whenever that read succeeds the history is not
  empty and the title is never derived: the sessions stay as they were, also
  for the first message of a session.
\<close>

theorem title_unchanged_when_history_read_succeeds:
  assumes "selectRows env = Returns ()"
  shows "aiAnalysisSessions (fst (snd (analyze env st req))) = aiAnalysisSessions st"
proof (cases "aiConfigured env \<and> truthy (message req) \<and> truthy (sessionId req)")
  case False
  then show ?thesis by (auto simp: analyze_def)
next
  case True
  then obtain msg sid where v: "aiConfigured env" "message req = Some msg" "msg \<noteq> []"
      "sessionId req = Some sid" "sid \<noteq> []"
    by (auto simp: truthy_def split: option.splits)
  let ?ctx = "contextEvents_analyze (getSecurityEvents st) (eventIds req) (filters req)"
  obtain r1 st1 where s1: "store_user_message env st sid msg ?ctx (filters req) = (r1, st1)"
    by (cases "store_user_message env st sid msg ?ctx (filters req)") auto
  from createAiChatMessage_cases [OF s1 [unfolded store_user_message_def]]
  show ?thesis
  proof (elim disjE exE conjE)
    fix e assume "r1 = Throws e" "st1 = st"
    with s1 show ?thesis by (simp add: analyze_valid [OF v] Let_def)
  next
    fix row assume r: "r1 = Returns row" "st1 = st\<lparr>aiChatMessages := aiChatMessages st @ [row]\<rparr>"
      "msg_sessionId row = sid" "msg_role row = js ''user''" "msg_content row = msg"
    have "row \<in> set (sort_key msg_timestamp (filter (\<lambda>m. msg_sessionId m = sid) (aiChatMessages st1)))"
      using r by simp
    then have ne: "sort_key msg_timestamp (filter (\<lambda>m. msg_sessionId m = sid) (aiChatMessages st1)) \<noteq> []"
      by (rule in_set_nonempty)
    have g: "getAiChatMessages (selectRows env) st1 sid =
        Returns (sort_key msg_timestamp (filter (\<lambda>m. msg_sessionId m = sid) (aiChatMessages st1)))"
      using assms by (simp add: getAiChatMessages_def select_messages_def)
    have sess1: "aiAnalysisSessions st1 = aiAnalysisSessions st" using r by simp
    have sa: "\<And>c r2 st2. store_assistant_response env st1 sid ?ctx c = (r2, st2) \<Longrightarrow>
        aiAnalysisSessions st2 = aiAnalysisSessions st"
      using sess1 by (auto simp: store_assistant_response_def dest!: createAiChatMessage_cases)
    show ?thesis
      using s1 r(1) g ne sess1 sa
      by (auto simp: analyze_valid [OF v] Let_def split: attempt.split prod.split)
  qed
qed

text \<open>
  The first message of the fresh session of the sample store: the call
  succeeds, the title derived from the message would be its first 30 code
  units and the marker, and the session keeps its placeholder title.
\<close>

theorem first_message_title_not_set:
  "selectRows ex_env = Returns () \<and>
   aiChatMessages ex_store = [] \<and>
   aiAnalysisSessions (fst (snd (analyze ex_env ex_store ex_request))) = aiAnalysisSessions ex_store \<and>
   map sess_title (aiAnalysisSessions ex_store) = [js ''New Analysis Session''] \<and>
   session_title (js ''Investigate the critical SQL injection alerts from last night please'') =
     js ''Investigate the critical SQL i...''"
proof -
  have a: "selectRows ex_env = Returns ()" by (simp add: ex_env_def)
  have b: "map sess_title (aiAnalysisSessions ex_store) = [js ''New Analysis Session'']"
    by (simp add: ex_store_def)
  have c: "session_title (js ''Investigate the critical SQL injection alerts from last night please'') =
     js ''Investigate the critical SQL i...''"
    by code_simp
  have d: "aiChatMessages ex_store = []" by (simp add: ex_store_def)
  note e = title_unchanged_when_history_read_succeeds [OF a, of ex_store ex_request]
  show ?thesis by (intro conjI a b c d e)
qed

subsection \<open>The sanitizer\<close>

text \<open>
  A match in a prefix of a string is a match at the same place in the string:
  each expression that succeeds on an input succeeds on every extension of it.
\<close>

lemma ext_okI: "(\<And>p s. k (p, s) \<noteq> None \<Longrightarrow> k' (p, s @ v) \<noteq> None) \<Longrightarrow> ext_ok v k k'"
  by (simp add: ext_ok_def)

lemma ext_okD: "ext_ok v k k' \<Longrightarrow> k (p, s) \<noteq> None \<Longrightarrow> k' (p, s @ v) \<noteq> None"
  by (simp add: ext_ok_def)

lemma ext_ok_Some: "ext_ok v Some Some"
  by (simp add: ext_ok_def)

lemma ext_ok_chr_set: "ext_ok v k k' \<Longrightarrow> ext_ok v (chr_set P k) (chr_set P k')"
  by (auto simp: ext_ok_def chr_set_def split: list.splits if_splits)

lemma ext_ok_lit_ci: "ext_ok v k k' \<Longrightarrow> ext_ok v (lit_ci w k) (lit_ci w k')"
  by (induction w) (simp_all add: ext_ok_chr_set)

lemma ext_ok_star:
  assumes m: "\<And>k k'. ext_ok v k k' \<Longrightarrow> ext_ok v (m k) (m k')"
    and k: "ext_ok v k k'"
  shows "ext_ok v (star m k) (star m k')"
proof (rule ext_okI)
  fix p s
  show "star m k (p, s) \<noteq> None \<Longrightarrow> star m k' (p, s @ v) \<noteq> None"
  proof (induction "length s" arbitrary: p s rule: less_induct)
    case less
    let ?K = "\<lambda>st'. if length (snd st') < length (snd (p, s)) then star m k st' else None"
    let ?K' = "\<lambda>st'. if length (snd st') < length (snd (p, s @ v)) then star m k' st' else None"
    have "ext_ok v ?K ?K'"
    proof (rule ext_okI)
      fix p1 s1
      assume a: "?K (p1, s1) \<noteq> None"
      then have l: "length s1 < length s" by (simp split: if_splits)
      with a have "star m k (p1, s1) \<noteq> None" by simp
      with less.hyps [OF l] have "star m k' (p1, s1 @ v) \<noteq> None" by simp
      with l show "?K' (p1, s1 @ v) \<noteq> None" by simp
    qed
    from m [OF this] have mk: "ext_ok v (m ?K) (m ?K')" .
    show ?case
    proof (cases "m ?K (p, s)")
      case (Some r)
      with ext_okD [OF mk, of p s] have "m ?K' (p, s @ v) \<noteq> None" by simp
      then show ?thesis by (subst star.simps) (auto split: option.splits)
    next
      case None
      with less.prems have "k (p, s) \<noteq> None" by (subst (asm) star.simps) simp
      with ext_okD [OF k] have "k' (p, s @ v) \<noteq> None" by simp
      then show ?thesis by (subst star.simps) (auto split: option.splits)
    qed
  qed
qed

lemma ext_ok_plus_m:
  assumes "\<And>k k'. ext_ok v k k' \<Longrightarrow> ext_ok v (m k) (m k')" and "ext_ok v k k'"
  shows "ext_ok v (plus_m m k) (plus_m m k')"
  unfolding plus_m_def by (intro assms(1) ext_ok_star assms)

lemma ext_ok_alt:
  assumes "ext_ok v (m1 k) (m1 k')" and "ext_ok v (m2 k) (m2 k')"
  shows "ext_ok v (alt m1 m2 k) (alt m1 m2 k')"
proof (rule ext_okI)
  fix p s
  assume a: "alt m1 m2 k (p, s) \<noteq> None"
  show "alt m1 m2 k' (p, s @ v) \<noteq> None"
  proof (cases "m1 k (p, s)")
    case (Some r)
    with ext_okD [OF assms(1), of p s] have "m1 k' (p, s @ v) \<noteq> None" by simp
    then show ?thesis by (auto simp: alt_def)
  next
    case None
    with a have "m2 k (p, s) \<noteq> None" by (simp add: alt_def)
    with ext_okD [OF assms(2)] have "m2 k' (p, s @ v) \<noteq> None" by simp
    then show ?thesis by (auto simp: alt_def split: option.splits)
  qed
qed

lemma ext_ok_word_boundary:
  assumes "ext_ok v k k'" and "\<And>p. k (p, []) = None"
  shows "ext_ok v (word_boundary k) (word_boundary k')"
proof (rule ext_okI)
  fix p s
  assume a: "word_boundary k (p, s) \<noteq> None"
  then have ks: "k (p, s) \<noteq> None" by (simp add: word_boundary_def Let_def split: if_splits)
  with assms(2) have "s \<noteq> []" by auto
  then obtain c cs where s: "s = c # cs" by (cases s) auto
  from ks assms(1) have "k' (p, s @ v) \<noteq> None" by (rule ext_okD [rotated])
  with a s show "word_boundary k' (p, s @ v) \<noteq> None"
    by (simp add: word_boundary_def Let_def split: if_splits)
qed

lemma ext_ok_capture_chr:
  assumes "\<And>q. ext_ok v (f q k) (f q k')"
  shows "ext_ok v (capture_chr P f k) (capture_chr P f k')"
  using assms by (auto simp: ext_ok_def capture_chr_def split: list.splits if_splits)


text \<open>The tail of the script and iframe expressions, after the opening tag.\<close>

lemma ext_ok_block_tail:
  "ext_ok v
     (star (\<lambda>x. neg_lookahead (lit_ci w) (chr_set (\<lambda>c. c = 0x3C) (star (chr_set (\<lambda>c. c \<noteq> 0x3C)) x)))
        (lit_ci w Some))
     (star (\<lambda>x. neg_lookahead (lit_ci w) (chr_set (\<lambda>c. c = 0x3C) (star (chr_set (\<lambda>c. c \<noteq> 0x3C)) x)))
        (lit_ci w Some))"
proof (rule ext_okI)
  let ?H = "\<lambda>x. chr_set (\<lambda>c. c = 0x3C) (star (chr_set (\<lambda>c. c \<noteq> 0x3C)) x)"
  let ?G = "\<lambda>x. neg_lookahead (lit_ci w) (?H x)"
  let ?k = "lit_ci w Some"
  have lit: "ext_ok v ?k ?k" by (intro ext_ok_lit_ci ext_ok_Some)
  fix p s
  show "star ?G ?k (p, s) \<noteq> None \<Longrightarrow> star ?G ?k (p, s @ v) \<noteq> None"
  proof (induction "length s" arbitrary: p s rule: less_induct)
    case less
    let ?K = "\<lambda>st'. if length (snd st') < length (snd (p, s)) then star ?G ?k st' else None"
    let ?K' = "\<lambda>st'. if length (snd st') < length (snd (p, s @ v)) then star ?G ?k st' else None"
    have KK: "ext_ok v ?K ?K'"
    proof (rule ext_okI)
      fix p1 s1
      assume a: "?K (p1, s1) \<noteq> None"
      then have l: "length s1 < length s" by (simp split: if_splits)
      with a have "star ?G ?k (p1, s1) \<noteq> None" by simp
      with less.hyps [OF l] have "star ?G ?k (p1, s1 @ v) \<noteq> None" by simp
      with l show "?K' (p1, s1 @ v) \<noteq> None" by simp
    qed
    have HH: "ext_ok v (?H ?K) (?H ?K')"
      by (rule ext_ok_chr_set [OF ext_ok_star [OF ext_ok_chr_set KK]])
    show ?case
    proof (cases "?k (p, s @ v)")
      case (Some r)
      then show ?thesis
        by (subst star.simps) (auto simp: neg_lookahead_def split: option.splits)
    next
      case None
      then have G': "?G ?K' (p, s @ v) = ?H ?K' (p, s @ v)"
        by (simp add: neg_lookahead_def)
      have kn: "?k (p, s) = None"
      proof (rule ccontr)
        assume "?k (p, s) \<noteq> None"
        with lit have "?k (p, s @ v) \<noteq> None" by (rule ext_okD)
        with None show False by simp
      qed
      then have G: "?G ?K (p, s) = ?H ?K (p, s)"
        by (simp add: neg_lookahead_def)
      from less.prems kn have "?G ?K (p, s) \<noteq> None"
        by (subst (asm) star.simps) (auto split: option.splits)
      with G have "?H ?K (p, s) \<noteq> None" by simp
      with ext_okD [OF HH] have "?H ?K' (p, s @ v) \<noteq> None" by blast
      with G' have "?G ?K' (p, s @ v) \<noteq> None" by simp
      then show ?thesis by (subst star.simps) (auto split: option.splits)
    qed
  qed
qed

lemma block_tail_empty:
  "w \<noteq> [] \<Longrightarrow>
   star (chr_set P)
     (star (\<lambda>x. neg_lookahead (lit_ci w) (chr_set Q (star (chr_set R) x))) (lit_ci w k)) (p, []) = None"
  by (cases w) (simp_all add: star.simps [of _ _ "(p, [])"] chr_set_def neg_lookahead_def)

lemma ext_ok_block:
  assumes "w \<noteq> []"
  shows "ext_ok v
     ((lit_ci u \<circ> word_boundary \<circ> star (chr_set (\<lambda>c. c \<noteq> 0x3C)) \<circ>
       star (neg_lookahead (lit_ci w) \<circ> chr_set (\<lambda>c. c = 0x3C) \<circ> star (chr_set (\<lambda>c. c \<noteq> 0x3C))) \<circ>
       lit_ci w) Some)
     ((lit_ci u \<circ> word_boundary \<circ> star (chr_set (\<lambda>c. c \<noteq> 0x3C)) \<circ>
       star (neg_lookahead (lit_ci w) \<circ> chr_set (\<lambda>c. c = 0x3C) \<circ> star (chr_set (\<lambda>c. c \<noteq> 0x3C))) \<circ>
       lit_ci w) Some)"
proof -
  let ?tail = "star (\<lambda>x. neg_lookahead (lit_ci w)
                     (chr_set (\<lambda>c. c = 0x3C) (star (chr_set (\<lambda>c. c \<noteq> 0x3C)) x))) (lit_ci w Some)"
  let ?body = "star (chr_set (\<lambda>c. c \<noteq> 0x3C)) ?tail"
  have tail: "ext_ok v ?tail ?tail" by (rule ext_ok_block_tail)
  have body: "ext_ok v ?body ?body"
    by (rule ext_ok_star [OF ext_ok_chr_set tail])
  have emp: "?body (p, []) = None" for p
    using assms by (rule block_tail_empty)
  have "ext_ok v (lit_ci u (word_boundary ?body)) (lit_ci u (word_boundary ?body))"
    by (rule ext_ok_lit_ci [OF ext_ok_word_boundary [OF body emp]])
  then show ?thesis by (simp only: comp_def)
qed

lemma ext_ok_re_script: "ext_ok v (re_script Some) (re_script Some)"
  unfolding re_script_def by (rule ext_ok_block) (simp add: js_def)

lemma ext_ok_re_iframe: "ext_ok v (re_iframe Some) (re_iframe Some)"
  unfolding re_iframe_def by (rule ext_ok_block) (simp add: js_def)

lemma ext_ok_re_javascript: "ext_ok v (re_javascript Some) (re_javascript Some)"
  unfolding re_javascript_def comp_apply
  by (intro ext_ok_lit_ci ext_ok_star ext_ok_chr_set ext_ok_Some)

lemma ext_ok_re_data: "ext_ok v (re_data Some) (re_data Some)"
  unfolding re_data_def comp_apply
  by (intro ext_ok_lit_ci ext_ok_star ext_ok_chr_set ext_ok_alt ext_ok_Some)

lemma lit_ci_empty: "w \<noteq> [] \<Longrightarrow> lit_ci w k (p, []) = None"
  by (cases w) (simp_all add: chr_set_def)

lemma ext_ok_re_handler_quoted: "ext_ok v (re_handler_quoted Some) (re_handler_quoted Some)"
  unfolding re_handler_quoted_def comp_apply backref_def
  apply (intro ext_ok_word_boundary ext_ok_lit_ci ext_ok_plus_m ext_ok_star ext_ok_chr_set
      ext_ok_capture_chr ext_ok_Some)
      apply assumption+
  apply (rule lit_ci_empty)
  apply (simp add: js_def)
  done

lemma ext_ok_re_handler_unquoted: "ext_ok v (re_handler_unquoted Some) (re_handler_unquoted Some)"
  unfolding re_handler_unquoted_def comp_apply
  apply (intro ext_ok_word_boundary ext_ok_lit_ci ext_ok_plus_m ext_ok_star ext_ok_chr_set ext_ok_Some)
      apply assumption+
  apply (rule lit_ci_empty)
  apply (simp add: js_def)
  done

lemma matches_from_iff:
  "matches_from m p s \<longleftrightarrow>
     (m Some (p, s) \<noteq> None \<or> (case s of [] \<Rightarrow> False | c # cs \<Rightarrow> matches_from m (Some c) cs))"
  by (cases s) (auto split: option.splits)

lemma matches_from_append:
  assumes e: "ext_ok v (m Some) (m Some)"
  shows "matches_from m p s \<Longrightarrow> matches_from m p (s @ v)"
proof (induction s arbitrary: p)
  case Nil
  then have "m Some (p, []) \<noteq> None" by (simp split: option.splits)
  with e have "m Some (p, [] @ v) \<noteq> None" by (rule ext_okD)
  then show ?case by (subst matches_from_iff) simp
next
  case (Cons c cs)
  show ?case
  proof (cases "m Some (p, c # cs)")
    case None
    with Cons.prems have "matches_from m (Some c) cs" by simp
    then have "matches_from m (Some c) (cs @ v)" by (rule Cons.IH)
    then show ?thesis by (simp split: option.splits)
  next
    case (Some r)
    then have "m Some (p, c # cs) \<noteq> None" by simp
    with e have "m Some (p, (c # cs) @ v) \<noteq> None" by (rule ext_okD)
    then show ?thesis by (auto split: option.splits)
  qed
qed

lemma regex_test_take:
  assumes "ext_ok (drop n s) (m Some) (m Some)" and "regex_test m (take n s)"
  shows "regex_test m s"
  using matches_from_append [where m = m and v = "drop n s" and p = None and s = "take n s"] assms
  by (simp add: regex_test_def)

lemma pattern_free_take: "pattern_free s \<Longrightarrow> pattern_free (take n s)"
  unfolding pattern_free_def
  by (blast intro: regex_test_take ext_ok_re_script ext_ok_re_iframe ext_ok_re_javascript
      ext_ok_re_data ext_ok_re_handler_quoted ext_ok_re_handler_unquoted)

lemma pattern_free_slice0: "pattern_free s \<Longrightarrow> pattern_free (slice0 s n)"
  by (simp add: slice0_def pattern_free_take)

lemma replace_from_no_match: "\<not> matches_from m p s \<Longrightarrow> replace_from m rep (p, s) = s"
proof (induction s arbitrary: p)
  case Nil
  then show ?case by (subst replace_from.simps) (simp split: option.splits)
next
  case (Cons c cs)
  from Cons.prems have n: "m Some (p, c # cs) = None" and r: "\<not> matches_from m (Some c) cs"
    by (auto split: option.splits)
  from Cons.IH [OF r] n show ?case by (subst replace_from.simps) simp
qed

lemma replace_all_no_match: "\<not> regex_test m s \<Longrightarrow> replace_all m rep s = s"
  by (simp add: replace_all_def regex_test_def replace_from_no_match)

lemma sanitize_pattern_free:
  assumes "r \<noteq> []" and "pattern_free (slice0 r n)"
  shows "sanitizeAiResponse (Some r) n = slice0 r n"
  using assms by (simp add: sanitizeAiResponse_def pattern_free_def replace_all_no_match)

lemma fallback_pattern_free: "pattern_free fallback_text"
  by code_simp

lemma fallback_length: "length fallback_text = 71"
  by (simp add: fallback_text_def js_def)


text \<open>
  Every match of an expression has a least length: 16 for a script or iframe
  block, 11 for a \<open>javascript:\<close> token and 14 for a \<open>data:\<close> URI.
\<close>

lemma advancesI: "(\<And>st r. k st = Some r \<Longrightarrow> length (snd r) + n \<le> length (snd st)) \<Longrightarrow> advances n k"
  by (simp add: advances_def)

lemma advancesD: "advances n k \<Longrightarrow> k st = Some r \<Longrightarrow> length (snd r) + n \<le> length (snd st)"
  unfolding advances_def by blast

lemma advances_Some: "advances 0 Some"
  by (simp add: advances_def)

lemma advances_weaken: "advances n k \<Longrightarrow> m \<le> n \<Longrightarrow> advances m k"
  by (fastforce simp: advances_def)

lemma advances_chr_set: "advances n k \<Longrightarrow> advances (Suc n) (chr_set P k)"
  by (fastforce simp: advances_def chr_set_def split: list.splits if_splits)

lemma advances_chr_set_same: "advances n k \<Longrightarrow> advances n (chr_set P k)"
  by (fastforce simp: advances_def chr_set_def split: list.splits if_splits)

lemma advances_lit_ci: "advances n k \<Longrightarrow> advances (length w + n) (lit_ci w k)"
  by (induction w) (simp_all add: advances_chr_set)

lemma advances_lit_ci_eq: "advances n k \<Longrightarrow> length w + n = N \<Longrightarrow> advances N (lit_ci w k)"
  using advances_lit_ci by blast

lemma advances_lit_ci_same: "advances n k \<Longrightarrow> advances n (lit_ci w k)"
  using advances_weaken [OF advances_lit_ci, of n k n w] by simp

lemma advances_star:
  assumes m: "\<And>k. advances n k \<Longrightarrow> advances n (m k)"
    and k: "advances n k"
  shows "advances n (star m k)"
proof (rule advancesI)
  fix st r
  show "star m k st = Some r \<Longrightarrow> length (snd r) + n \<le> length (snd st)"
  proof (induction "length (snd st)" arbitrary: st r rule: less_induct)
    case less
    let ?K = "\<lambda>st'. if length (snd st') < length (snd st) then star m k st' else None"
    have "advances n ?K"
    proof (rule advancesI)
      fix st1 r1
      assume a: "?K st1 = Some r1"
      then have l: "length (snd st1) < length (snd st)" by (simp split: if_splits)
      with a have "star m k st1 = Some r1" by simp
      with less.hyps [OF l] show "length (snd r1) + n \<le> length (snd st1)" by simp
    qed
    from m [OF this] have mk: "advances n (m ?K)" .
    show ?case
    proof (cases "m ?K st")
      case (Some r')
      with less.prems have "r' = r" by (subst (asm) star.simps) simp
      with Some advancesD [OF mk] show ?thesis by simp
    next
      case None
      with less.prems have "k st = Some r" by (subst (asm) star.simps) simp
      with advancesD [OF k] show ?thesis by simp
    qed
  qed
qed

lemma advances_plus_m:
  assumes "\<And>k. advances n k \<Longrightarrow> advances n (m k)" and "advances n k"
  shows "advances n (plus_m m k)"
  unfolding plus_m_def by (intro assms(1) advances_star assms)

lemma advances_word_boundary: "advances n k \<Longrightarrow> advances n (word_boundary k)"
  by (auto simp: advances_def word_boundary_def Let_def split: if_splits)

lemma advances_neg_lookahead: "advances n k \<Longrightarrow> advances n (neg_lookahead m k)"
  by (auto simp: advances_def neg_lookahead_def split: option.splits)

lemma advances_alt: "advances n (m1 k) \<Longrightarrow> advances n (m2 k) \<Longrightarrow> advances n (alt m1 m2 k)"
  by (auto simp: advances_def alt_def split: option.splits)

lemma advances_capture_chr: "(\<And>q. advances n (f q k)) \<Longrightarrow> advances n (capture_chr P f k)"
  by (fastforce simp: advances_def capture_chr_def split: list.splits if_splits)

lemma advances_block:
  "advances (length u + length w)
     ((lit_ci u \<circ> word_boundary \<circ> star (chr_set (\<lambda>c. c \<noteq> 0x3C)) \<circ>
       star (neg_lookahead (lit_ci w) \<circ> chr_set (\<lambda>c. c = 0x3C) \<circ> star (chr_set (\<lambda>c. c \<noteq> 0x3C))) \<circ>
       lit_ci w) Some)"
proof -
  let ?n = "length w"
  have l: "advances ?n (lit_ci w Some)"
    using advances_lit_ci [OF advances_Some, of w] by simp
  have g: "advances ?n (neg_lookahead (lit_ci w) (chr_set P (star (chr_set Q) k)))"
    if "advances ?n k" for k P Q
    by (intro advances_neg_lookahead advances_chr_set_same advances_star that)
  have t: "advances ?n (star (\<lambda>x. neg_lookahead (lit_ci w)
      (chr_set (\<lambda>c. c = 0x3C) (star (chr_set (\<lambda>c. c \<noteq> 0x3C)) x))) (lit_ci w Some))"
    by (rule advances_star [OF g l])
  have b: "advances ?n (word_boundary (star (chr_set (\<lambda>c. c \<noteq> 0x3C)) (star (\<lambda>x. neg_lookahead (lit_ci w)
      (chr_set (\<lambda>c. c = 0x3C) (star (chr_set (\<lambda>c. c \<noteq> 0x3C)) x))) (lit_ci w Some))))"
    by (intro advances_word_boundary advances_star advances_chr_set_same t)
  show ?thesis
    unfolding comp_def by (rule advances_lit_ci [OF b])
qed

lemma advances_re_script: "advances 16 (re_script Some)"
  unfolding re_script_def
  using advances_weaken [OF advances_block [of "js ''<script''" "js ''</script>''"], of 16]
  by (simp add: js_def)

lemma advances_re_iframe: "advances 16 (re_iframe Some)"
  unfolding re_iframe_def
  using advances_weaken [OF advances_block [of "js ''<iframe''" "js ''</iframe>''"], of 16]
  by (simp add: js_def)

lemma advances_re_javascript: "advances 11 (re_javascript Some)"
proof -
  have c: "advances 1 (lit_ci (js '':'') Some)"
    by (rule advances_lit_ci_eq [OF advances_Some]) (simp add: js_def)
  have s: "advances 1 (star (chr_set is_space) (lit_ci (js '':'') Some))"
    by (intro advances_star advances_chr_set_same c)
  show ?thesis
    unfolding re_javascript_def comp_def
    by (rule advances_lit_ci_eq [OF s]) (simp add: js_def)
qed

lemma advances_re_data: "advances 14 (re_data Some)"
proof -
  have a1: "advances 9 (lit_ci (js ''text/html'') Some)"
    by (rule advances_lit_ci_eq [OF advances_Some]) (simp add: js_def)
  have a2: "advances 9 (lit_ci (js ''application/javascript'') Some)"
    using advances_weaken [OF advances_lit_ci [OF advances_Some, of "js ''application/javascript''"], of 9]
    by (simp add: js_def)
  have a: "advances 9 (star (chr_set is_space)
      (alt (lit_ci (js ''text/html'')) (lit_ci (js ''application/javascript'')) Some))"
    by (intro advances_star advances_chr_set_same advances_alt a1 a2)
  have c: "advances 10 (lit_ci (js '':'') (star (chr_set is_space)
      (alt (lit_ci (js ''text/html'')) (lit_ci (js ''application/javascript'')) Some)))"
    by (rule advances_lit_ci_eq [OF a]) (simp add: js_def)
  have s: "advances 10 (star (chr_set is_space) (lit_ci (js '':'') (star (chr_set is_space)
      (alt (lit_ci (js ''text/html'')) (lit_ci (js ''application/javascript'')) Some))))"
    by (intro advances_star advances_chr_set_same c)
  show ?thesis
    unfolding re_data_def comp_def
    by (rule advances_lit_ci_eq [OF s]) (simp add: js_def)
qed

lemma advances_re_handler_quoted: "advances 0 (re_handler_quoted Some)"
  unfolding re_handler_quoted_def comp_def backref_def plus_m_def
  by (intro advances_word_boundary advances_lit_ci_same advances_star
      advances_chr_set_same advances_capture_chr advances_Some)

lemma advances_re_handler_unquoted: "advances 0 (re_handler_unquoted Some)"
  unfolding re_handler_unquoted_def comp_def plus_m_def
  by (intro advances_word_boundary advances_lit_ci_same advances_star
      advances_chr_set_same advances_Some)

lemma replace_from_length:
  "advances n (m Some) \<Longrightarrow> length rep \<le> n \<Longrightarrow>
   length (replace_from m rep st) \<le> length (snd st)"
proof (induction m rep st rule: replace_from.induct)
  case (1 m rep st)
  note a = "1.prems"(1) and r = "1.prems"(2)
  show ?case
  proof (cases "m Some st")
    case None
    with "1.IH" a r show ?thesis
      by (subst replace_from.simps) (auto split: list.splits)
  next
    case (Some st')
    from a Some have adv: "length (snd st') + n \<le> length (snd st)" by (rule advancesD)
    show ?thesis
    proof (cases "length (snd st') < length (snd st)")
      case True
      with "1.IH" Some a r have "length (replace_from m rep st') \<le> length (snd st')" by blast
      with True Some adv r show ?thesis
        by (subst replace_from.simps) simp
    next
      case False
      with adv r have "length rep = 0" by linarith
      then have e: "rep = []" by simp
      have "length (replace_from m rep (Some c, cs)) \<le> length cs" if "snd st = c # cs" for c cs
        using "1.IH"(3) [OF Some False that a r] by simp
      with False Some e show ?thesis
        by (subst replace_from.simps) (auto split: list.splits)
    qed
  qed
qed

lemma replace_all_length:
  "advances n (m Some) \<Longrightarrow> length rep \<le> n \<Longrightarrow> length (replace_all m rep s) \<le> length s"
  using replace_from_length [of n m rep "(None, s)"] by (simp add: replace_all_def)

text \<open>A match of at least 11 code units replaced by 19.\<close>

lemma replace_from_growth:
  "advances 11 (m Some) \<Longrightarrow> length rep \<le> 19 \<Longrightarrow>
   11 * length (replace_from m rep st) \<le> 19 * length (snd st)"
proof (induction m rep st rule: replace_from.induct)
  case (1 m rep st)
  note a = "1.prems"(1) and r = "1.prems"(2)
  show ?case
  proof (cases "m Some st")
    case None
    with "1.IH" a r show ?thesis
      by (subst replace_from.simps) (auto split: list.splits)
  next
    case (Some st')
    from a Some have adv: "length (snd st') + 11 \<le> length (snd st)" by (rule advancesD)
    then have lt: "length (snd st') < length (snd st)" by simp
    with "1.IH" Some a r have "11 * length (replace_from m rep st') \<le> 19 * length (snd st')" by blast
    with Some adv r lt show ?thesis
      by (subst replace_from.simps) simp
  qed
qed

lemma replace_all_growth:
  "advances 11 (m Some) \<Longrightarrow> length rep \<le> 19 \<Longrightarrow>
   11 * length (replace_all m rep s) \<le> 19 * length s"
  using replace_from_growth [of m rep "(None, s)"] by (simp add: replace_all_def)

lemma length_js: "length (js s) = length s"
  by (simp add: js_def)

lemma sanitize_length:
  assumes "r \<noteq> []"
  shows "11 * length (sanitizeAiResponse (Some r) n) \<le> 19 * length (slice0 r n)"
proof -
  define s0 where "s0 = slice0 r n"
  define s1 where "s1 = replace_all re_script (js ''[removed script]'') s0"
  define s2 where "s2 = replace_all re_iframe (js ''[removed iframe]'') s1"
  define s3 where "s3 = replace_all re_javascript (js ''javascript-blocked:'') s2"
  define s4 where "s4 = replace_all re_data (js ''data-blocked:'') s3"
  define s5 where "s5 = replace_all re_handler_quoted [] s4"
  define s6 where "s6 = replace_all re_handler_unquoted [] s5"
  have res: "sanitizeAiResponse (Some r) n = s6"
    using assms by (simp add: sanitizeAiResponse_def s0_def s1_def s2_def s3_def s4_def s5_def s6_def)
  have l1: "length s1 \<le> length s0"
    unfolding s1_def by (rule replace_all_length [where m = re_script, OF advances_re_script]) (simp add: length_js)
  have l2: "length s2 \<le> length s1"
    unfolding s2_def by (rule replace_all_length [where m = re_iframe, OF advances_re_iframe]) (simp add: length_js)
  have l3: "11 * length s3 \<le> 19 * length s2"
    unfolding s3_def by (rule replace_all_growth [where m = re_javascript, OF advances_re_javascript]) (simp add: length_js)
  have l4: "length s4 \<le> length s3"
    unfolding s4_def by (rule replace_all_length [where m = re_data, OF advances_re_data]) (simp add: length_js)
  have l5: "length s5 \<le> length s4"
    unfolding s5_def by (rule replace_all_length [where m = re_handler_quoted, OF advances_re_handler_quoted]) simp
  have l6: "length s6 \<le> length s5"
    unfolding s6_def by (rule replace_all_length [where m = re_handler_unquoted, OF advances_re_handler_unquoted]) simp
  from l1 l2 l3 l4 l5 l6 have "11 * length s6 \<le> 19 * length s0" by linarith
  then show ?thesis by (simp add: res s0_def)
qed

lemma slice0_length: "0 \<le> n \<Longrightarrow> length (slice0 r n) \<le> nat n"
  by (simp add: slice0_def)


text \<open>
  Claim C9.  For a string free of the five blocked patterns, sanitizing the
  sanitized string gives the sanitized string again; so it does for an absent
  response.
\<close>

theorem sanitize_idempotent_on_pattern_free:
  "sanitize (Some (sanitize None)) = sanitize None \<and>
   (pattern_free x \<longrightarrow> sanitize (Some (sanitize (Some x))) = sanitize (Some x))"
proof -
  have fb_ne: "fallback_text \<noteq> []" using fallback_length by auto
  have fb_slice: "slice0 fallback_text 8000 = fallback_text"
    by (simp add: slice0_def fallback_length)
  have fb: "sanitize (Some fallback_text) = fallback_text"
    unfolding sanitize_def using sanitize_pattern_free [OF fb_ne, of 8000] fallback_pattern_free
    by (simp add: fb_slice)
  have none: "sanitize None = fallback_text"
    by (simp add: sanitize_def sanitizeAiResponse_def)
  have "sanitize (Some (sanitize (Some x))) = sanitize (Some x)" if pf: "pattern_free x"
  proof (cases "x = []")
    case True
    then have "sanitize (Some x) = fallback_text"
      by (simp add: sanitize_def sanitizeAiResponse_def)
    with fb show ?thesis by simp
  next
    case False
    have pfs: "pattern_free (slice0 x 8000)" using pf by (rule pattern_free_slice0)
    have s1: "sanitize (Some x) = slice0 x 8000"
      unfolding sanitize_def using False pfs by (rule sanitize_pattern_free)
    have ne: "slice0 x 8000 \<noteq> []" using False by (simp add: slice0_def)
    have idem: "slice0 (slice0 x 8000) 8000 = slice0 x 8000" by (simp add: slice0_def)
    have "sanitize (Some (slice0 x 8000)) = slice0 (slice0 x 8000) 8000"
      unfolding sanitize_def using ne pfs by (intro sanitize_pattern_free) (simp_all add: idem)
    with s1 idem show ?thesis by simp
  qed
  with fb none show ?thesis by simp
qed

theorem sanitize_idempotent_on_pattern_free_witness:
  "pattern_free (js ''All clear.'') \<and>
   sanitize (Some (sanitize (Some (js ''All clear.'')))) = sanitize (Some (js ''All clear.''))"
proof -
  have p: "pattern_free (js ''All clear.'')" by code_simp
  with sanitize_idempotent_on_pattern_free [of "js ''All clear.''"]
  have "sanitize (Some (sanitize (Some (js ''All clear.'')))) = sanitize (Some (js ''All clear.''))"
    by (elim conjE impE)
  with p show ?thesis by (rule conjI)
qed

text \<open>
  Claim C3, as the function has it.  For an absent or empty response the
  result is the fallback text, which has 71 code units whatever \<open>maxLength\<close>
  is.  For any other response the function cuts to \<open>maxLength\<close> first and
  replaces afterwards: for \<open>maxLength \<ge> 0\<close> the result has at most 19/11 of
  \<open>maxLength\<close> code units, since only the replacement of a \<open>javascript:\<close>
  token (at least 11 code units, replaced by 19) lengthens the text; and when
  the first \<open>maxLength\<close> code units are free of the blocked patterns the
  result is exactly these code units, so that it is not empty for
  \<open>maxLength \<ge> 1\<close> and not longer than \<open>maxLength\<close>.
\<close>

theorem sanitize_result_bounds:
  "sanitizeAiResponse None n = fallback_text \<and>
   sanitizeAiResponse (Some []) n = fallback_text \<and>
   length fallback_text = 71 \<and>
   (r \<noteq> [] \<and> 0 \<le> n \<longrightarrow> 11 * length (sanitizeAiResponse (Some r) n) \<le> 19 * nat n) \<and>
   (r \<noteq> [] \<and> pattern_free (slice0 r n) \<longrightarrow> sanitizeAiResponse (Some r) n = slice0 r n) \<and>
   (r \<noteq> [] \<and> 1 \<le> n \<and> pattern_free (slice0 r n) \<longrightarrow>
      sanitizeAiResponse (Some r) n \<noteq> [] \<and> length (sanitizeAiResponse (Some r) n) \<le> nat n)"
proof -
  have a: "sanitizeAiResponse None n = fallback_text" "sanitizeAiResponse (Some []) n = fallback_text"
    by (simp_all add: sanitizeAiResponse_def)
  have b: "11 * length (sanitizeAiResponse (Some r) n) \<le> 19 * nat n" if "r \<noteq> []" "0 \<le> n"
    using sanitize_length [OF that(1), of n] slice0_length [OF that(2), of r] by linarith
  have c: "sanitizeAiResponse (Some r) n = slice0 r n" if "r \<noteq> []" "pattern_free (slice0 r n)"
    using that by (rule sanitize_pattern_free)
  have d: "sanitizeAiResponse (Some r) n \<noteq> [] \<and> length (sanitizeAiResponse (Some r) n) \<le> nat n"
    if "r \<noteq> []" "1 \<le> n" "pattern_free (slice0 r n)"
  proof -
    from that(1,2) have "slice0 r n \<noteq> []" by (simp add: slice0_def)
    moreover from that(2) have "length (slice0 r n) \<le> nat n" by (simp add: slice0_def)
    ultimately show ?thesis using c [OF that(1,3)] by simp
  qed
  from a b c d fallback_length show ?thesis by blast
qed


theorem sanitize_result_bounds_witness:
  "sanitizeAiResponse None 5 = fallback_text \<and>
   sanitizeAiResponse (Some (js ''All clear.'')) 5 = js ''All c'' \<and>
   11 * length (sanitizeAiResponse (Some (js ''javascript:'')) 11) \<le> 19 * nat 11"
proof -
  have n: "js ''All clear.'' \<noteq> []" "js ''javascript:'' \<noteq> []" by (simp_all add: js_def)
  have s: "slice0 (js ''All clear.'') 5 = js ''All c''" by (simp add: slice0_def js_def)
  have p: "pattern_free (slice0 (js ''All clear.'') 5)" unfolding s by code_simp
  have z: "(0::int) \<le> 11" by simp
  note t = sanitize_result_bounds [of 5 "js ''All clear.''"]
  have a: "sanitizeAiResponse None 5 = fallback_text"
    using t by blast
  have "sanitizeAiResponse (Some (js ''All clear.'')) 5 = slice0 (js ''All clear.'') 5"
    using t n(1) p by blast
  then have b: "sanitizeAiResponse (Some (js ''All clear.'')) 5 = js ''All c''"
    by (simp only: s)
  have c: "11 * length (sanitizeAiResponse (Some (js ''javascript:'')) 11) \<le> 19 * nat 11"
    using sanitize_result_bounds [of 11 "js ''javascript:''"] n(2) z by blast
  from a b c show ?thesis by (intro conjI)
qed

text \<open>
  Claim C3 as stated fails: a response that is one event-handler attribute is
  sanitized to the empty string; a \<open>javascript:\<close> token of 11 code units
  gives 19 code units under \<open>maxLength = 11\<close>; \<open>maxLength = 0\<close> gives the
  empty string; and the fallback text is longer than \<open>maxLength = 5\<close>.
\<close>

theorem sanitize_empty_or_longer_than_maxLength:
  "sanitizeAiResponse (Some (js ''onclick=1'')) 8000 = [] \<and>
   length (sanitizeAiResponse (Some (js ''javascript:'')) 11) = 19 \<and>
   sanitizeAiResponse (Some (js ''x'')) 0 = [] \<and>
   length (sanitizeAiResponse None 5) = 71"
  by code_simp

end
